theory Spec2Isabelle
  imports Complex_Main "HOL-Library.Multiset"
begin

section \<open>Gaussian-process posterior of the notebook \<open>Gaussian Processes.ipynb\<close>\<close>

text \<open>
  The notebook computes with numpy's float64. The embedding takes the numbers to be the
  reals: every operation is exact, there is no rounding, no overflow, no \<open>nan\<close> and no
  \<open>inf\<close>. Where the source divides by zero (\<open>2*l*l\<close> at \<open>l = 0\<close>) there is no real
  result (numpy answers \<open>nan\<close> or \<open>-inf\<close> with a warning, Python floats raise
  ZeroDivisionError), and the model returns an error value. Inputs and targets are scalars,
  arrays are lists, a two-dimensional array is the list of its rows.
\<close>

datatype error = ZeroDivisionError | IndexError | ValueError | InvalidParameter

subsection \<open>The covariance kernel\<close>

text \<open>
  \<open>def kernel(x1,x2,sigma_kernel,l,sigma_noise):
      return sigma_kernel * sigma_kernel * np.exp(-(x1-x2)**2 / (2*l*l)) + sigma_noise*(x1==x2)\<close>

  In Python \<open>-(x1-x2)**2\<close> is \<open>-((x1-x2)**2)\<close>, and the boolean \<open>x1==x2\<close>
  multiplies as 1 or 0.
\<close>

definition kernel :: "real \<Rightarrow> real \<Rightarrow> real \<Rightarrow> real \<Rightarrow> real \<Rightarrow> error + real" where
  "kernel x1 x2 sigma_kernel l sigma_noise =
     (if 2 * l * l = 0 then Inl ZeroDivisionError
      else Inr (sigma_kernel * sigma_kernel * exp (- ((x1 - x2) ^ 2) / (2 * l * l))
                + sigma_noise * (if x1 = x2 then 1 else 0)))"

text \<open>
  The covariance in the words of the specification:
  \<open>\<sigma>_k\<^sup>2 \<sqdot> exp(\<midarrow>(x \<midarrow> x')\<^sup>2 / (2l\<^sup>2))\<close>, plus \<open>\<sigma>_n\<close> when the two inputs are equal.
\<close>

definition squared_exponential :: "real \<Rightarrow> real \<Rightarrow> real \<Rightarrow> real \<Rightarrow> real \<Rightarrow> real" where
  "squared_exponential sigma_k len sigma_n x x' =
     sigma_k\<^sup>2 * exp (- ((x - x')\<^sup>2) / (2 * len\<^sup>2)) + (if x = x' then sigma_n else 0)"

subsection \<open>Arrays\<close>

text \<open>Running a list of computations from left to right; the first error ends the run.\<close>

fun collect :: "(error + 'a) list \<Rightarrow> error + 'a list" where
  "collect [] = Inr []"
| "collect (r # rs) =
     (case r of
        Inl e \<Rightarrow> Inl e
      | Inr v \<Rightarrow> (case collect rs of Inl e \<Rightarrow> Inl e | Inr vs \<Rightarrow> Inr (v # vs)))"

text \<open>An array of shape \<open>(r, c)\<close>.\<close>

definition has_shape :: "nat \<Rightarrow> nat \<Rightarrow> real list list \<Rightarrow> bool" where
  "has_shape r c M = (length M = r \<and> (\<forall>row \<in> set M. length row = c))"

definition ncols :: "real list list \<Rightarrow> nat" where
  "ncols M = (case M of [] \<Rightarrow> 0 | row # _ \<Rightarrow> length row)"

definition column :: "real list list \<Rightarrow> nat \<Rightarrow> real list" where
  "column M j = map (\<lambda>row. row ! j) M"

definition dot :: "real list \<Rightarrow> real list \<Rightarrow> real" where
  "dot u v = sum_list (map2 (*) u v)"

text \<open>The product \<open>v @ M\<close> of a row vector and a matrix, and the product \<open>A @ B\<close> of
  two matrices (numpy's \<open>@\<close> on arrays whose shapes agree).\<close>

definition vec_mat :: "real list \<Rightarrow> real list list \<Rightarrow> real list" where
  "vec_mat v M = map (\<lambda>j. dot v (column M j)) [0..<ncols M]"

definition matmul :: "real list list \<Rightarrow> real list list \<Rightarrow> real list list" where
  "matmul A B = map (\<lambda>row. vec_mat row B) A"

definition identity :: "nat \<Rightarrow> real list list" where
  "identity n = map (\<lambda>i. map (\<lambda>j. if i = j then 1 else 0) [0..<n]) [0..<n]"

subsection \<open>The notebook's global variables\<close>

text \<open>
  \<open>GPpredict\<close> takes the kernel parameters from the module-level variables
  \<open>sigma_kernel\<close>, \<open>l\<close> and \<open>sigma_noise\<close>. The record holds these and the other
  module-level variables that exist when \<open>GPpredict\<close> is called.
\<close>

record globals =
  g_sigma_kernel :: real
  g_l :: real
  g_sigma_noise :: real
  g_X :: "real list"
  g_Y :: "real list"
  g_N :: nat
  g_Kinv :: "real list list"
  g_x :: "real list"
  g_y :: "real list"
  g_sigma :: "real list"
  g_mu :: "real list"

text \<open>The global state with the given kernel parameters and every other variable empty.\<close>

definition kernel_params :: "real \<Rightarrow> real \<Rightarrow> real \<Rightarrow> globals" where
  "kernel_params sk len sn =
     \<lparr>g_sigma_kernel = sk, g_l = len, g_sigma_noise = sn, g_X = [], g_Y = [], g_N = 0,
      g_Kinv = [], g_x = [], g_y = [], g_sigma = [], g_mu = []\<rparr>"

subsection \<open>Prediction\<close>

text \<open>
  \<open>Kstar = np.zeros((1,N))
   for i in range(N):
       Kstar[0,i] = kernel(x_data[i], x_new, sigma_kernel, l, sigma_noise)\<close>

  \<open>x_data[i]\<close> raises IndexError when \<open>x_data\<close> has no index \<open>i\<close>.
\<close>

definition Kstar_loop :: "globals \<Rightarrow> real \<Rightarrow> real list \<Rightarrow> nat \<Rightarrow> error + real list" where
  "Kstar_loop g x_new x_data n =
     collect (map (\<lambda>i. if i < length x_data
                         then kernel (x_data ! i) x_new (g_sigma_kernel g) (g_l g) (g_sigma_noise g)
                         else Inl IndexError) [0..<n])"

text \<open>
  \<open>def GPpredict(x_new, x_data, y_data, Kinv):
       N = y_data.shape[0]
       ...
       mu = Kstar @ Kinv @ y_data
       sigma = kernel(x_new,x_new,sigma_kernel,l,sigma_noise) - Kstar @ Kinv @ Kstar.T
       return mu, sigma\<close>

  \<open>Kstar @ Kinv\<close> raises ValueError unless \<open>Kinv\<close> has \<open>N\<close> rows, and the product with
  \<open>y_data\<close> raises ValueError unless \<open>Kstar @ Kinv\<close> has \<open>N\<close> columns. The arrays
  \<open>mu\<close> (shape \<open>(1,)\<close>) and \<open>sigma\<close> (shape \<open>(1,1)\<close>) hold one number each, and the
  model returns these two numbers.
\<close>

definition GPpredict ::
  "globals \<Rightarrow> real \<Rightarrow> real list \<Rightarrow> real list \<Rightarrow> real list list \<Rightarrow> error + (real \<times> real)" where
  "GPpredict g x_new x_data y_data Kinv =
     (let N = length y_data in
      case Kstar_loop g x_new x_data N of
        Inl e \<Rightarrow> Inl e
      | Inr Kstar \<Rightarrow>
          if \<not> has_shape N N Kinv then Inl ValueError
          else
            let mu = dot (vec_mat Kstar Kinv) y_data in
            case kernel x_new x_new (g_sigma_kernel g) (g_l g) (g_sigma_noise g) of
              Inl e \<Rightarrow> Inl e
            | Inr kxx \<Rightarrow> Inr (mu, kxx - dot (vec_mat Kstar Kinv) Kstar))"

subsection \<open>The Gram matrix\<close>

text \<open>
  Modelled from the spec: \<open>compute_K\<close> (the spec's \<open>build_gram_matrix\<close>) is missing from
  the notebook, which only calls it (\<open>Kinv = np.linalg.inv(compute_K(X,sigma_kernel,l,sigma_noise))\<close>);
  its body is the exercise solution \<open>solutions/code5.py\<close>. By the specification it rejects a
  length scale \<open>l \<le> 0\<close> and an empty training set with \<open>InvalidParameter\<close> before any
  matrix work, and otherwise returns the \<open>N\<times>N\<close> matrix with \<open>K[i][j] = k(x_i, x_j)\<close>,
  where \<open>k\<close> is the notebook's \<open>kernel\<close>.
\<close>

definition compute_K :: "real list \<Rightarrow> real \<Rightarrow> real \<Rightarrow> real \<Rightarrow> error + real list list" where
  "compute_K X sigma_kernel l sigma_noise =
     (if l \<le> 0 \<or> X = [] then Inl InvalidParameter
      else collect (map (\<lambda>xi. collect (map (\<lambda>xj. kernel xi xj sigma_kernel l sigma_noise) X)) X))"

text \<open>
  The precondition of prediction: \<open>Kinv\<close> is the exact inverse of the Gram matrix of the
  training inputs under the kernel parameters in force.
\<close>

definition is_inverse :: "real list list \<Rightarrow> real list list \<Rightarrow> bool" where
  "is_inverse K Kinv =
     (has_shape (length K) (length K) Kinv
      \<and> matmul K Kinv = identity (length K) \<and> matmul Kinv K = identity (length K))"

definition exact_inverse_of_gram :: "globals \<Rightarrow> real list \<Rightarrow> real list list \<Rightarrow> bool" where
  "exact_inverse_of_gram g X Kinv =
     (case compute_K X (g_sigma_kernel g) (g_l g) (g_sigma_noise g) of
        Inl e \<Rightarrow> False
      | Inr K \<Rightarrow> is_inverse K Kinv)"

subsection \<open>Inverses of small Gram matrices\<close>

text \<open>
  The Gram matrix of two inputs is \<open>[[a, b], [b, a]]\<close>, and that of three equally spaced
  inputs is \<open>[[a, b, c], [b, a, b], [c, b, a]]\<close>. Their inverses by cofactors, where the
  determinant is not 0, stand for what \<open>np.linalg.inv\<close> returns in exact arithmetic.
\<close>

definition cofactor_inverse2 :: "real \<Rightarrow> real \<Rightarrow> real list list" where
  "cofactor_inverse2 a b =
     (let d = a\<^sup>2 - b\<^sup>2 in [[a / d, - b / d], [- b / d, a / d]])"

definition cofactor_inverse3 :: "real \<Rightarrow> real \<Rightarrow> real \<Rightarrow> real list list" where
  "cofactor_inverse3 a b c =
     (let d = a ^ 3 - 2 * a * b\<^sup>2 + 2 * b\<^sup>2 * c - a * c\<^sup>2 in
      [[(a\<^sup>2 - b\<^sup>2) / d, b * (c - a) / d, (b\<^sup>2 - a * c) / d],
       [b * (c - a) / d, (a\<^sup>2 - c\<^sup>2) / d, b * (c - a) / d],
       [(b\<^sup>2 - a * c) / d, b * (c - a) / d, (a\<^sup>2 - b\<^sup>2) / d]])"

subsection \<open>The body of \<open>GPpredict\<close> as a program on the interpreter state\<close>

text \<open>
  To speak of what a call changes, the body of \<open>GPpredict\<close> is also written as a program
  on the state of the interpreter: the module's variables, the variables of the running
  call, and the arrays, which live in a heap and are reached through references, so that
  two names may denote the same array. A fresh array gets the next unused address.
\<close>

datatype array = Vec "real list" | Mat "real list list"

datatype pyval = PyFloat real | PyInt nat | PyRef nat

datatype exec_error = NameError | TypeError | Raised error

record pystate =
  py_globals :: "string \<rightharpoonup> pyval"
  py_locals :: "string \<rightharpoonup> pyval"
  py_heap :: "nat \<rightharpoonup> array"
  py_next :: nat

type_synonym 'a exec = "pystate \<Rightarrow> (exec_error + 'a) \<times> pystate"

text \<open>A computation returns a value or raises, and leaves a state.\<close>

definition ok :: "'a \<Rightarrow> 'a exec" where
  "ok v = (\<lambda>s. (Inr v, s))"

definition raise :: "exec_error \<Rightarrow> 'a exec" where
  "raise e = (\<lambda>s. (Inl e, s))"

definition and_then :: "'a exec \<Rightarrow> ('a \<Rightarrow> 'b exec) \<Rightarrow> 'b exec" where
  "and_then m f = (\<lambda>s. case m s of (Inl e, s') \<Rightarrow> (Inl e, s') | (Inr v, s') \<Rightarrow> f v s')"

text \<open>
  Reading a module-level name and a name of the running call (an unbound name raises
  NameError), binding a name of the running call, creating an array, and reading and
  writing the array behind a reference.
\<close>

definition load_global :: "string \<Rightarrow> pyval exec" where
  "load_global n = (\<lambda>s. case py_globals s n of None \<Rightarrow> (Inl NameError, s) | Some v \<Rightarrow> (Inr v, s))"

definition load_local :: "string \<Rightarrow> pyval exec" where
  "load_local n = (\<lambda>s. case py_locals s n of None \<Rightarrow> (Inl NameError, s) | Some v \<Rightarrow> (Inr v, s))"

definition store_local :: "string \<Rightarrow> pyval \<Rightarrow> unit exec" where
  "store_local n v = (\<lambda>s. (Inr (), s\<lparr>py_locals := (py_locals s)(n \<mapsto> v)\<rparr>))"

definition new_array :: "array \<Rightarrow> pyval exec" where
  "new_array arr =
     (\<lambda>s. (Inr (PyRef (py_next s)),
            s\<lparr>py_heap := (py_heap s)(py_next s \<mapsto> arr), py_next := Suc (py_next s)\<rparr>))"

definition load_array :: "pyval \<Rightarrow> array exec" where
  "load_array v =
     (\<lambda>s. case v of
            PyRef a \<Rightarrow> (case py_heap s a of None \<Rightarrow> (Inl TypeError, s) | Some arr \<Rightarrow> (Inr arr, s))
          | _ \<Rightarrow> (Inl TypeError, s))"

definition store_array :: "nat \<Rightarrow> array \<Rightarrow> unit exec" where
  "store_array a arr = (\<lambda>s. (Inr (), s\<lparr>py_heap := (py_heap s)(a \<mapsto> arr)\<rparr>))"

text \<open>
  The operations the body uses, on the values the notebook passes: \<open>x_new\<close> a float,
  \<open>x_data\<close> and \<open>y_data\<close> one-dimensional arrays, \<open>Kinv\<close> a two-dimensional array.
  Values of other types are outside the model and answer TypeError. \<open>y.shape[0]\<close>,
  \<open>x_data[i]\<close>, \<open>Kstar[0,i] = k\<close> (a write into the array \<open>Kstar\<close> refers to), the
  call of \<open>kernel\<close> (whose body only computes with its parameters), and the two products
  of \<open>A @ B @ v\<close>: first the row \<open>A @ B\<close>, then its product with \<open>v\<close>. The
  intermediate row is a value of the model, not an array of the heap; the names \<open>kernel\<close>
  and \<open>np\<close> are taken as bound.
\<close>

definition as_float :: "pyval \<Rightarrow> real exec" where
  "as_float v = (case v of PyFloat r \<Rightarrow> ok r | _ \<Rightarrow> raise TypeError)"

definition as_int :: "pyval \<Rightarrow> nat exec" where
  "as_int v = (case v of PyInt n \<Rightarrow> ok n | _ \<Rightarrow> raise TypeError)"

definition shape0 :: "pyval \<Rightarrow> nat exec" where
  "shape0 v = and_then (load_array v)
     (\<lambda>arr. ok (case arr of Vec xs \<Rightarrow> length xs | Mat rows \<Rightarrow> length rows))"

definition getitem :: "pyval \<Rightarrow> nat \<Rightarrow> real exec" where
  "getitem v i = and_then (load_array v)
     (\<lambda>arr. case arr of
              Vec xs \<Rightarrow> if i < length xs then ok (xs ! i) else raise (Raised IndexError)
            | Mat rows \<Rightarrow> raise TypeError)"

definition setitem0 :: "pyval \<Rightarrow> nat \<Rightarrow> real \<Rightarrow> unit exec" where
  "setitem0 v i k = and_then (load_array v)
     (\<lambda>arr. case (v, arr) of
              (PyRef a, Mat (row # rest)) \<Rightarrow>
                 if i < length row then store_array a (Mat (row[i := k] # rest))
                 else raise (Raised IndexError)
            | _ \<Rightarrow> raise (Raised IndexError))"

definition call_kernel :: "pyval \<Rightarrow> pyval \<Rightarrow> pyval \<Rightarrow> pyval \<Rightarrow> pyval \<Rightarrow> real exec" where
  "call_kernel x1 x2 sk len sn =
     and_then (as_float x1) (\<lambda>a1. and_then (as_float x2) (\<lambda>a2. and_then (as_float sk) (\<lambda>a3.
     and_then (as_float len) (\<lambda>a4. and_then (as_float sn) (\<lambda>a5.
       case kernel a1 a2 a3 a4 a5 of Inl e \<Rightarrow> raise (Raised e) | Inr k \<Rightarrow> ok k)))))"

definition matmul_row :: "pyval \<Rightarrow> pyval \<Rightarrow> real list exec" where
  "matmul_row A B =
     and_then (load_array A) (\<lambda>a. and_then (load_array B) (\<lambda>b.
       case (a, b) of
         (Mat [row], Mat M) \<Rightarrow>
            if length M = length row \<and> has_shape (length M) (ncols M) M then ok (vec_mat row M)
            else raise (Raised ValueError)
       | _ \<Rightarrow> raise TypeError))"

definition times_vec :: "real list \<Rightarrow> real list \<Rightarrow> real exec" where
  "times_vec t v = (if length t = length v then ok (dot t v) else raise (Raised ValueError))"

text \<open>\<open>for i in range(n): body\<close>, the body binding \<open>i\<close> first.\<close>

fun for_each :: "nat list \<Rightarrow> (nat \<Rightarrow> unit exec) \<Rightarrow> unit exec" where
  "for_each [] body = ok ()"
| "for_each (i # rest) body = and_then (body i) (\<lambda>_. for_each rest body)"

text \<open>
  The statements of the body, in the order of the source. Every name the body assigns
  (\<open>N\<close>, \<open>Kstar\<close>, \<open>i\<close>, \<open>mu\<close>, \<open>sigma\<close>) is a name of the running call, as Python
  decides for a function without a \<open>global\<close> declaration; \<open>sigma_kernel\<close>, \<open>l\<close> and
  \<open>sigma_noise\<close> are only read, from the module.

  \<open>N = y_data.shape[0]\<close>
\<close>

definition stmt_N :: "unit exec" where
  "stmt_N = and_then (load_local ''y_data'') (\<lambda>y. and_then (shape0 y) (\<lambda>n.
              store_local ''N'' (PyInt n)))"

text \<open>\<open>Kstar = np.zeros((1,N))\<close>\<close>

definition stmt_Kstar :: "unit exec" where
  "stmt_Kstar = and_then (load_local ''N'') (\<lambda>v. and_then (as_int v) (\<lambda>n.
                  and_then (new_array (Mat [replicate n 0])) (\<lambda>r. store_local ''Kstar'' r)))"

text \<open>\<open>Kstar[0,i] = kernel(x_data[i], x_new, sigma_kernel, l, sigma_noise)\<close>: the
  arguments from left to right, the call, then the write.\<close>

definition loop_body :: "nat \<Rightarrow> unit exec" where
  "loop_body i =
     and_then (store_local ''i'' (PyInt i)) (\<lambda>_.
     and_then (load_local ''x_data'') (\<lambda>xd. and_then (load_local ''i'') (\<lambda>iv.
     and_then (as_int iv) (\<lambda>j. and_then (getitem xd j) (\<lambda>xi.
     and_then (load_local ''x_new'') (\<lambda>xn. and_then (load_global ''sigma_kernel'') (\<lambda>sk.
     and_then (load_global ''l'') (\<lambda>len. and_then (load_global ''sigma_noise'') (\<lambda>sn.
     and_then (call_kernel (PyFloat xi) xn sk len sn) (\<lambda>k.
     and_then (load_local ''Kstar'') (\<lambda>ks. and_then (load_local ''i'') (\<lambda>iv'.
     and_then (as_int iv') (\<lambda>j'. setitem0 ks j' k)))))))))))))"

text \<open>\<open>for i in range(N): ...\<close>\<close>

definition stmt_for :: "unit exec" where
  "stmt_for = and_then (load_local ''N'') (\<lambda>v. and_then (as_int v) (\<lambda>n.
                for_each [0..<n] loop_body))"

text \<open>\<open>mu = Kstar @ Kinv @ y_data\<close>, a new array of shape \<open>(1,)\<close>.\<close>

definition stmt_mu :: "unit exec" where
  "stmt_mu =
     and_then (load_local ''Kstar'') (\<lambda>ks. and_then (load_local ''Kinv'') (\<lambda>ki.
     and_then (matmul_row ks ki) (\<lambda>t.
     and_then (load_local ''y_data'') (\<lambda>y. and_then (load_array y) (\<lambda>ya.
     case ya of
       Vec ys \<Rightarrow> and_then (times_vec t ys) (\<lambda>m.
                   and_then (new_array (Vec [m])) (\<lambda>r. store_local ''mu'' r))
     | Mat _ \<Rightarrow> raise TypeError)))))"

text \<open>\<open>sigma = kernel(x_new,x_new,sigma_kernel,l,sigma_noise) - Kstar @ Kinv @ Kstar.T\<close>,
  a new array of shape \<open>(1,1)\<close>.\<close>

definition stmt_sigma :: "unit exec" where
  "stmt_sigma =
     and_then (load_local ''x_new'') (\<lambda>x1. and_then (load_local ''x_new'') (\<lambda>x2.
     and_then (load_global ''sigma_kernel'') (\<lambda>sk. and_then (load_global ''l'') (\<lambda>len.
     and_then (load_global ''sigma_noise'') (\<lambda>sn. and_then (call_kernel x1 x2 sk len sn) (\<lambda>kxx.
     and_then (load_local ''Kstar'') (\<lambda>ks. and_then (load_local ''Kinv'') (\<lambda>ki.
     and_then (matmul_row ks ki) (\<lambda>t.
     and_then (load_local ''Kstar'') (\<lambda>ks'. and_then (load_array ks') (\<lambda>ka.
     case ka of
       Mat [row] \<Rightarrow> and_then (times_vec t row) (\<lambda>q.
                      and_then (new_array (Mat [[kxx - q]])) (\<lambda>r. store_local ''sigma'' r))
     | _ \<Rightarrow> raise TypeError)))))))))))"

text \<open>\<open>return mu, sigma\<close>\<close>

definition stmt_return :: "(pyval \<times> pyval) exec" where
  "stmt_return = and_then (load_local ''mu'') (\<lambda>m. and_then (load_local ''sigma'') (\<lambda>v. ok (m, v)))"

definition GPpredict_body :: "(pyval \<times> pyval) exec" where
  "GPpredict_body =
     and_then stmt_N (\<lambda>_. and_then stmt_Kstar (\<lambda>_. and_then stmt_for (\<lambda>_.
     and_then stmt_mu (\<lambda>_. and_then stmt_sigma (\<lambda>_. stmt_return)))))"

text \<open>
  A call binds the parameters in a new set of local names, runs the body, and gives the
  caller its own local names back.
\<close>

definition GPpredict_call ::
  "pyval \<Rightarrow> pyval \<Rightarrow> pyval \<Rightarrow> pyval \<Rightarrow> (pyval \<times> pyval) exec" where
  "GPpredict_call x_new x_data y_data Kinv =
     (\<lambda>s. case GPpredict_body
                 (s\<lparr>py_locals := [''x_new'' \<mapsto> x_new, ''x_data'' \<mapsto> x_data,
                                   ''y_data'' \<mapsto> y_data, ''Kinv'' \<mapsto> Kinv]\<rparr>) of
            (r, s') \<Rightarrow> (r, s'\<lparr>py_locals := py_locals s\<rparr>))"

text \<open>What the caller sees of a call: the exception, or the contents of the two arrays
  returned.\<close>

definition observed :: "(exec_error + pyval \<times> pyval) \<times> pystate
     \<Rightarrow> exec_error + array option \<times> array option" where
  "observed out =
     (case out of
        (Inl e, s') \<Rightarrow> Inl e
      | (Inr (m, v), s') \<Rightarrow>
          Inr (case m of PyRef a \<Rightarrow> py_heap s' a | _ \<Rightarrow> None,
               case v of PyRef a \<Rightarrow> py_heap s' a | _ \<Rightarrow> None))"

text \<open>
  The state while the loop runs, in terms of the state \<open>s\<close> at the call: the local names
  \<open>F\<close> and \<open>i\<close>, and the array \<open>Kstar\<close> at the first unused address of \<open>s\<close>; and the
  local names after the first two statements.
\<close>

definition loop_state :: "pystate \<Rightarrow> (string \<rightharpoonup> pyval) \<Rightarrow> pyval option \<Rightarrow> real list \<Rightarrow> pystate" where
  "loop_state s F iv row =
     s\<lparr>py_locals := F(''i'' := iv), py_heap := (py_heap s)(py_next s \<mapsto> Mat [row]),
       py_next := Suc (py_next s)\<rparr>"

definition call_frame :: "real \<Rightarrow> nat \<Rightarrow> nat \<Rightarrow> nat \<Rightarrow> nat \<Rightarrow> nat \<Rightarrow> string \<rightharpoonup> pyval" where
  "call_frame x ax ay ak n a =
     [''x_new'' \<mapsto> PyFloat x, ''x_data'' \<mapsto> PyRef ax, ''y_data'' \<mapsto> PyRef ay, ''Kinv'' \<mapsto> PyRef ak,
      ''N'' \<mapsto> PyInt n, ''Kstar'' \<mapsto> PyRef a]"

text \<open>
  Two states of the notebook that agree on the kernel parameters and hold the same training
  set \<open>X = [0]\<close>, \<open>Y = [2]\<close> and the same \<open>Kinv = [[1]]\<close>, at different addresses and
  among different other variables.
\<close>

definition notebook_state :: pystate where
  "notebook_state =
     \<lparr>py_globals = [''sigma_kernel'' \<mapsto> PyFloat 1, ''l'' \<mapsto> PyFloat 1, ''sigma_noise'' \<mapsto> PyFloat 0,
                     ''X'' \<mapsto> PyRef 0, ''Y'' \<mapsto> PyRef 1, ''Kinv'' \<mapsto> PyRef 2,
                     ''N'' \<mapsto> PyInt 1, ''sigma'' \<mapsto> PyRef 3, ''mu'' \<mapsto> PyRef 4],
      py_locals = Map.empty,
      py_heap = [0 \<mapsto> Vec [0], 1 \<mapsto> Vec [2], 2 \<mapsto> Mat [[1]], 3 \<mapsto> Vec [7], 4 \<mapsto> Vec [0, 0]],
      py_next = 5\<rparr>"

definition other_state :: pystate where
  "other_state =
     \<lparr>py_globals = [''sigma_kernel'' \<mapsto> PyFloat 1, ''l'' \<mapsto> PyFloat 1, ''sigma_noise'' \<mapsto> PyFloat 0,
                     ''N'' \<mapsto> PyInt 10, ''sigma'' \<mapsto> PyRef 2],
      py_locals = Map.empty,
      py_heap = [0 \<mapsto> Vec [2], 1 \<mapsto> Mat [[1]], 2 \<mapsto> Vec [5, 6], 3 \<mapsto> Vec [0]],
      py_next = 7\<rparr>"

section \<open>Auxiliary facts\<close>

subsection \<open>Values of the kernel, the loop and the products\<close>

lemma collect_map_Inr: "collect (map (\<lambda>x. Inr (f x)) xs) = Inr (map f xs)"
  by (induction xs) simp_all

lemma kernel_value:
  "l \<noteq> 0 \<Longrightarrow> kernel x1 x2 s l n = Inr (squared_exponential s l n x1 x2)"
  by (simp add: kernel_def squared_exponential_def power2_eq_square)

lemma kernel_zero_length: "kernel x1 x2 s 0 n = Inl ZeroDivisionError"
  by (simp add: kernel_def)

lemma Kstar_loop_value:
  assumes "g_l g \<noteq> 0" "n \<le> length x_data"
  shows "Kstar_loop g x_new x_data n =
           Inr (map (\<lambda>i. squared_exponential (g_sigma_kernel g) (g_l g) (g_sigma_noise g) (x_data ! i) x_new) [0..<n])"
proof -
  have "map (\<lambda>i. if i < length x_data
                  then kernel (x_data ! i) x_new (g_sigma_kernel g) (g_l g) (g_sigma_noise g)
                  else Inl IndexError) [0..<n]
        = map (\<lambda>i. Inr (squared_exponential (g_sigma_kernel g) (g_l g) (g_sigma_noise g) (x_data ! i) x_new)) [0..<n]"
    using assms by (intro map_cong) (auto simp: kernel_value)
  then show ?thesis
    unfolding Kstar_loop_def by (simp only: collect_map_Inr)
qed

lemma compute_K_value:
  assumes "0 < l" "X \<noteq> []"
  shows "compute_K X s l n = Inr (map (\<lambda>xi. map (\<lambda>xj. squared_exponential s l n xi xj) X) X)"
proof -
  have "\<And>xi. collect (map (\<lambda>xj. kernel xi xj s l n) X) = Inr (map (\<lambda>xj. squared_exponential s l n xi xj) X)"
    using assms by (simp add: kernel_value collect_map_Inr)
  then show ?thesis
    using assms by (simp add: compute_K_def collect_map_Inr)
qed

lemma dot_sum: "length u = length v \<Longrightarrow> dot u v = (\<Sum>i<length u. u ! i * v ! i)"
proof -
  assume h: "length u = length v"
  have "dot u v = (\<Sum>i = 0..<length (map2 (*) u v). map2 (*) u v ! i)"
    unfolding dot_def by (rule sum_list_sum_nth)
  also have "\<dots> = (\<Sum>i<length u. u ! i * v ! i)"
    using h by (simp add: atLeast0LessThan)
  finally show ?thesis .
qed

lemma ncols_square: "has_shape n n M \<Longrightarrow> ncols M = n"
  by (cases M) (auto simp: has_shape_def ncols_def)

lemma vec_mat_nth:
  assumes "has_shape n n M" "length v = n" "j < n"
  shows "vec_mat v M ! j = (\<Sum>i<n. v ! i * M ! i ! j)"
proof -
  have "vec_mat v M ! j = dot v (column M j)"
    using assms by (simp add: vec_mat_def ncols_square)
  also have "\<dots> = (\<Sum>i<length v. v ! i * column M j ! i)"
    using assms by (intro dot_sum) (simp add: column_def has_shape_def)
  also have "\<dots> = (\<Sum>i<n. v ! i * M ! i ! j)"
    using assms by (simp add: column_def has_shape_def)
  finally show ?thesis .
qed

lemma vec_mat_length: "has_shape n n M \<Longrightarrow> length (vec_mat v M) = n"
  by (simp add: vec_mat_def ncols_square)

lemma GPpredict_value:
  assumes l: "g_l g \<noteq> 0" and len: "length y_data \<le> length x_data"
    and shape: "has_shape (length y_data) (length y_data) Kinv"
  shows "GPpredict g x_new x_data y_data Kinv =
           Inr ((\<Sum>j<length y_data. (\<Sum>i<length y_data.
                    squared_exponential (g_sigma_kernel g) (g_l g) (g_sigma_noise g) (x_data ! i) x_new
                      * Kinv ! i ! j) * y_data ! j),
                squared_exponential (g_sigma_kernel g) (g_l g) (g_sigma_noise g) x_new x_new
                  - (\<Sum>j<length y_data. (\<Sum>i<length y_data.
                       squared_exponential (g_sigma_kernel g) (g_l g) (g_sigma_noise g) (x_data ! i) x_new
                         * Kinv ! i ! j)
                       * squared_exponential (g_sigma_kernel g) (g_l g) (g_sigma_noise g) (x_data ! j) x_new))"
proof -
  define N where "N = length y_data"
  define k where "k = squared_exponential (g_sigma_kernel g) (g_l g) (g_sigma_noise g)"
  define Kstar where "Kstar = map (\<lambda>i. k (x_data ! i) x_new) [0..<N]"
  have loop: "Kstar_loop g x_new x_data N = Inr Kstar"
    using Kstar_loop_value [OF l, of N x_data x_new] len by (simp add: N_def Kstar_def k_def)
  have lenK: "length Kstar = N" by (simp add: Kstar_def)
  have nthK: "\<And>i. i < N \<Longrightarrow> Kstar ! i = k (x_data ! i) x_new" by (simp add: Kstar_def)
  have shape': "has_shape N N Kinv" using shape by (simp add: N_def)
  have vm: "\<And>j. j < N \<Longrightarrow> vec_mat Kstar Kinv ! j = (\<Sum>i<N. k (x_data ! i) x_new * Kinv ! i ! j)"
    using vec_mat_nth [OF shape' lenK] nthK by simp
  have lvm: "length (vec_mat Kstar Kinv) = N" using shape' by (rule vec_mat_length)
  have mu: "dot (vec_mat Kstar Kinv) y_data
              = (\<Sum>j<N. (\<Sum>i<N. k (x_data ! i) x_new * Kinv ! i ! j) * y_data ! j)"
    using dot_sum [of "vec_mat Kstar Kinv" y_data] lvm vm by (simp add: N_def)
  have sg: "dot (vec_mat Kstar Kinv) Kstar
              = (\<Sum>j<N. (\<Sum>i<N. k (x_data ! i) x_new * Kinv ! i ! j) * k (x_data ! j) x_new)"
    using dot_sum [of "vec_mat Kstar Kinv" Kstar] lvm lenK vm nthK by simp
  have kxx: "kernel x_new x_new (g_sigma_kernel g) (g_l g) (g_sigma_noise g) = Inr (k x_new x_new)"
    using l by (simp add: kernel_value k_def)
  have "GPpredict g x_new x_data y_data Kinv
          = Inr (dot (vec_mat Kstar Kinv) y_data, k x_new x_new - dot (vec_mat Kstar Kinv) Kstar)"
    using loop shape' kxx by (simp add: GPpredict_def N_def [symmetric])
  then show ?thesis
    by (simp only: mu sg) (simp add: N_def k_def)
qed

lemma identity_nth: "i < n \<Longrightarrow> j < n \<Longrightarrow> identity n ! i ! j = (if i = j then 1 else 0)"
  by (simp add: identity_def)

lemma matmul_nth:
  assumes "has_shape n n A" "has_shape n n B" "i < n" "j < n"
  shows "matmul A B ! i ! j = (\<Sum>k<n. A ! i ! k * B ! k ! j)"
proof -
  have "matmul A B ! i = vec_mat (A ! i) B"
    using assms by (simp add: matmul_def has_shape_def)
  moreover have "length (A ! i) = n" using assms by (simp add: has_shape_def)
  ultimately show ?thesis using vec_mat_nth [OF assms(2) _ assms(4), of "A ! i"] by simp
qed

lemma is_inverse_right:
  assumes "is_inverse K Kinv" "has_shape n n K" "i < n" "j < n"
  shows "(\<Sum>k<n. K ! i ! k * Kinv ! k ! j) = (if i = j then 1 else 0)"
proof -
  have n: "length K = n" using assms(2) by (simp add: has_shape_def)
  have "has_shape n n Kinv" "matmul K Kinv = identity n"
    using assms(1) n by (simp_all add: is_inverse_def)
  then show ?thesis
    using matmul_nth [OF assms(2) _ assms(3,4), of Kinv] identity_nth [OF assms(3,4)] by simp
qed

lemma is_inverse_left:
  assumes "is_inverse K Kinv" "has_shape n n K" "i < n" "j < n"
  shows "(\<Sum>k<n. Kinv ! i ! k * K ! k ! j) = (if i = j then 1 else 0)"
proof -
  have n: "length K = n" using assms(2) by (simp add: has_shape_def)
  have "has_shape n n Kinv" "matmul Kinv K = identity n"
    using assms(1) n by (simp_all add: is_inverse_def)
  then show ?thesis
    using matmul_nth [OF _ assms(2) assms(3,4), of Kinv] identity_nth [OF assms(3,4)] by simp
qed

lemma squared_exponential_sym:
  "squared_exponential s l n x x' = squared_exponential s l n x' x"
  by (simp add: squared_exponential_def power2_commute)

lemma exact_inverse_of_gramD:
  assumes "exact_inverse_of_gram g X Kinv"
  shows "0 < g_l g" "X \<noteq> []"
    "is_inverse (map (\<lambda>xi. map (\<lambda>xj. squared_exponential (g_sigma_kernel g) (g_l g) (g_sigma_noise g) xi xj) X) X) Kinv"
proof -
  have ok: "\<not> (g_l g \<le> 0 \<or> X = [])"
    using assms by (auto simp: exact_inverse_of_gram_def compute_K_def)
  then show "0 < g_l g" "X \<noteq> []" by auto
  then show "is_inverse (map (\<lambda>xi. map (\<lambda>xj. squared_exponential (g_sigma_kernel g) (g_l g) (g_sigma_noise g) xi xj) X) X) Kinv"
    using assms by (simp add: exact_inverse_of_gram_def compute_K_value)
qed

lemma gram_shape: "has_shape (length X) (length X) (map (\<lambda>xi. map (\<lambda>xj. f xi xj) X) X)"
  by (auto simp: has_shape_def)

lemma exact_inverse_shape:
  "exact_inverse_of_gram g X Kinv \<Longrightarrow> has_shape (length X) (length X) Kinv"
  using exact_inverse_of_gramD(3) [of g X Kinv] by (simp add: is_inverse_def)

lemma exact_inverse_right:
  assumes "exact_inverse_of_gram g X Kinv" "i < length X" "j < length X"
  shows "(\<Sum>k<length X. squared_exponential (g_sigma_kernel g) (g_l g) (g_sigma_noise g) (X ! i) (X ! k) * Kinv ! k ! j)
           = (if i = j then 1 else 0)"
  using is_inverse_right [OF exact_inverse_of_gramD(3) [OF assms(1)] gram_shape assms(2,3)] assms(2)
  by simp

lemma exact_inverse_left:
  assumes "exact_inverse_of_gram g X Kinv" "i < length X" "j < length X"
  shows "(\<Sum>k<length X. Kinv ! i ! k * squared_exponential (g_sigma_kernel g) (g_l g) (g_sigma_noise g) (X ! k) (X ! j))
           = (if i = j then 1 else 0)"
  using is_inverse_left [OF exact_inverse_of_gramD(3) [OF assms(1)] gram_shape assms(2,3)] assms(3)
  by simp

lemma sum_delta_left:
  fixes f :: "nat \<Rightarrow> real"
  assumes "m < n"
  shows "(\<Sum>j<n. (if m = j then 1 else 0) * f j) = f m"
proof -
  have "(\<Sum>j<n. (if m = j then 1 else 0) * f j) = (\<Sum>j\<in>{..<n}. if j = m then f j else 0)"
    by (intro sum.cong refl) simp
  also have "\<dots> = f m" using assms by (simp add: sum.delta)
  finally show ?thesis .
qed

lemma GPpredict_at_training_point:
  assumes inv: "exact_inverse_of_gram g X Kinv" and m: "m < length X" and len: "length Y = length X"
  shows "GPpredict g (X ! m) X Y Kinv = Inr (Y ! m, 0)"
proof -
  define k where "k = squared_exponential (g_sigma_kernel g) (g_l g) (g_sigma_noise g)"
  have row: "(\<Sum>i<length X. k (X ! i) (X ! m) * Kinv ! i ! j) = (if m = j then 1 else 0)"
    if "j < length X" for j
    using exact_inverse_right [OF inv m that] squared_exponential_sym [of _ _ _ "X ! m"]
    by (simp add: k_def)
  have "GPpredict g (X ! m) X Y Kinv =
          Inr ((\<Sum>j<length X. (\<Sum>i<length X. k (X ! i) (X ! m) * Kinv ! i ! j) * Y ! j),
               k (X ! m) (X ! m)
                 - (\<Sum>j<length X. (\<Sum>i<length X. k (X ! i) (X ! m) * Kinv ! i ! j) * k (X ! j) (X ! m)))"
    using GPpredict_value [of g Y X Kinv "X ! m"] exact_inverse_of_gramD(1) [OF inv]
      exact_inverse_shape [OF inv] len
    by (simp add: k_def)
  also have "(\<Sum>j<length X. (\<Sum>i<length X. k (X ! i) (X ! m) * Kinv ! i ! j) * Y ! j)
               = (\<Sum>j<length X. (if m = j then 1 else 0) * Y ! j)"
    by (intro sum.cong refl) (simp add: row)
  also have "\<dots> = Y ! m" using m by (rule sum_delta_left)
  also have "(\<Sum>j<length X. (\<Sum>i<length X. k (X ! i) (X ! m) * Kinv ! i ! j) * k (X ! j) (X ! m))
               = (\<Sum>j<length X. (if m = j then 1 else 0) * k (X ! j) (X ! m))"
    by (intro sum.cong refl) (simp add: row)
  also have "\<dots> = k (X ! m) (X ! m)" using m by (rule sum_delta_left)
  finally show ?thesis by simp
qed

subsection \<open>Explicit inverses\<close>

lemma upt3: "[0..<3] = [0, 1, 2]"
  by (simp add: upt_rec)

lemma scaled_sum3:
  fixes d :: real
  assumes "d \<noteq> 0" and "x * p + y * q + z * r = t * d"
  shows "x * (p / d) + y * (q / d) + z * (r / d) = t"
proof -
  have "x * (p / d) + y * (q / d) + z * (r / d) = (x * p + y * q + z * r) / d"
    by (simp add: add_divide_distrib)
  also have "\<dots> = t" using assms by simp
  finally show ?thesis .
qed

lemma cofactor_inverse3_correct:
  fixes a b c :: real
  assumes "a ^ 3 - 2 * a * b\<^sup>2 + 2 * b\<^sup>2 * c - a * c\<^sup>2 \<noteq> 0"
  shows "is_inverse [[a, b, c], [b, a, b], [c, b, a]] (cofactor_inverse3 a b c)"
proof -
  define d where "d = a ^ 3 - 2 * a * b\<^sup>2 + 2 * b\<^sup>2 * c - a * c\<^sup>2"
  have d: "d \<noteq> 0" using assms by (simp add: d_def)
  have e1: "a * ((a\<^sup>2 - b\<^sup>2) / d) + b * (b * (c - a) / d) + c * ((b\<^sup>2 - a * c) / d) = 1"
    by (rule scaled_sum3 [OF d]) (simp add: d_def power2_eq_square power3_eq_cube algebra_simps)
  have e2: "a * (b * (c - a) / d) + b * ((a\<^sup>2 - c\<^sup>2) / d) + c * (b * (c - a) / d) = 0"
    by (rule scaled_sum3 [OF d]) (simp add: d_def power2_eq_square power3_eq_cube algebra_simps)
  have e3: "a * ((b\<^sup>2 - a * c) / d) + b * (b * (c - a) / d) + c * ((a\<^sup>2 - b\<^sup>2) / d) = 0"
    by (rule scaled_sum3 [OF d]) (simp add: d_def power2_eq_square power3_eq_cube algebra_simps)
  have e4: "b * ((a\<^sup>2 - b\<^sup>2) / d) + a * (b * (c - a) / d) + b * ((b\<^sup>2 - a * c) / d) = 0"
    by (rule scaled_sum3 [OF d]) (simp add: d_def power2_eq_square power3_eq_cube algebra_simps)
  have e5: "b * (b * (c - a) / d) + a * ((a\<^sup>2 - c\<^sup>2) / d) + b * (b * (c - a) / d) = 1"
    by (rule scaled_sum3 [OF d]) (simp add: d_def power2_eq_square power3_eq_cube algebra_simps)
  have e6: "c * ((a\<^sup>2 - b\<^sup>2) / d) + b * (b * (c - a) / d) + a * ((b\<^sup>2 - a * c) / d) = 0"
    by (rule scaled_sum3 [OF d]) (simp add: d_def power2_eq_square power3_eq_cube algebra_simps)
  have e7: "c * (b * (c - a) / d) + b * ((a\<^sup>2 - c\<^sup>2) / d) + a * (b * (c - a) / d) = 0"
    by (rule scaled_sum3 [OF d]) (simp add: d_def power2_eq_square power3_eq_cube algebra_simps)
  have e8: "c * ((b\<^sup>2 - a * c) / d) + b * (b * (c - a) / d) + a * ((a\<^sup>2 - b\<^sup>2) / d) = 1"
    by (rule scaled_sum3 [OF d]) (simp add: d_def power2_eq_square power3_eq_cube algebra_simps)
  have inv: "cofactor_inverse3 a b c =
      [[(a\<^sup>2 - b\<^sup>2) / d, b * (c - a) / d, (b\<^sup>2 - a * c) / d],
       [b * (c - a) / d, (a\<^sup>2 - c\<^sup>2) / d, b * (c - a) / d],
       [(b\<^sup>2 - a * c) / d, b * (c - a) / d, (a\<^sup>2 - b\<^sup>2) / d]]"
    by (simp add: cofactor_inverse3_def d_def Let_def)
  have r1: "matmul [[a, b, c], [b, a, b], [c, b, a]] (cofactor_inverse3 a b c) = identity 3"
    unfolding inv matmul_def vec_mat_def ncols_def column_def dot_def identity_def
    using e1 e2 e3 e4 e5 e6 e7 e8 by (simp add: upt3)
  have r2: "matmul (cofactor_inverse3 a b c) [[a, b, c], [b, a, b], [c, b, a]] = identity 3"
    unfolding inv matmul_def vec_mat_def ncols_def column_def dot_def identity_def
    using e1 e2 e3 e4 e5 e6 e7 e8 by (simp add: upt3 mult.commute)
  have r3: "has_shape 3 3 (cofactor_inverse3 a b c)"
    unfolding inv has_shape_def by simp
  have len: "length [[a, b, c], [b, a, b], [c, b, a]] = 3" by simp
  show ?thesis unfolding is_inverse_def len using r1 r2 r3 by simp
qed

lemma scenario_gram:
  "compute_K [1, 2, 3] 3 1 (1 / 10 ^ 6)
     = Inr [[9 + 1 / 10 ^ 6, 9 * exp (- (1 / 2)), 9 * exp (- 2)],
            [9 * exp (- (1 / 2)), 9 + 1 / 10 ^ 6, 9 * exp (- (1 / 2))],
            [9 * exp (- 2), 9 * exp (- (1 / 2)), 9 + 1 / 10 ^ 6]]"
  by (simp add: compute_K_def kernel_def)

lemma scenario_determinant:
  "(9 + 1 / 10 ^ 6) ^ 3 - 2 * (9 + 1 / 10 ^ 6) * (9 * exp (- (1 / 2)))\<^sup>2
     + 2 * (9 * exp (- (1 / 2)))\<^sup>2 * (9 * exp (- 2)) - (9 + 1 / 10 ^ 6) * (9 * exp (- 2))\<^sup>2 \<noteq> (0::real)"
proof -
  define t :: real where "t = exp (- 1)"
  define a :: real where "a = 9 + 1 / 10 ^ 6"
  have t: "0 < t" "t < 1" by (simp_all add: t_def)
  have a: "9 < a" by (simp add: a_def)
  have b2: "(9 * exp (- (1 / 2)))\<^sup>2 = 81 * t"
  proof -
    have "exp (- (1 / 2)) * exp (- (1 / 2)) = exp (- (1 / 2) + - (1 / 2) :: real)"
      by (rule exp_add [symmetric])
    then show ?thesis by (simp add: power2_eq_square t_def)
  qed
  have c: "9 * exp (- 2) = 9 * t\<^sup>2"
  proof -
    have "exp (- 1) * exp (- 1) = exp (- 1 + - 1 :: real)"
      by (rule exp_add [symmetric])
    then show ?thesis by (simp add: power2_eq_square t_def)
  qed
  have fac: "a ^ 3 - 2 * a * (81 * t) + 2 * (81 * t) * (9 * t\<^sup>2) - a * (9 * t\<^sup>2)\<^sup>2
               = (a - 9 * t\<^sup>2) * (a\<^sup>2 + a * (9 * t\<^sup>2) - 162 * t)"
    by (simp add: power2_eq_square power3_eq_cube algebra_simps)
  have t2: "t\<^sup>2 < 1" using t by (simp add: power_less_one_iff)
  have p1: "0 < a - 9 * t\<^sup>2" using a t2 by simp
  have "a\<^sup>2 + a * (9 * t\<^sup>2) - 162 * t = (a\<^sup>2 - 81) + (a - 9) * (9 * t\<^sup>2) + 81 * (1 - t)\<^sup>2"
    by (simp add: power2_eq_square algebra_simps)
  moreover have "0 < a\<^sup>2 - 81"
  proof -
    have "9 * 9 < a * a" using a by (intro mult_strict_mono) simp_all
    then show ?thesis by (simp add: power2_eq_square)
  qed
  moreover have "0 \<le> (a - 9) * (9 * t\<^sup>2)" using a by simp
  moreover have "0 \<le> 81 * (1 - t)\<^sup>2" by simp
  ultimately have p2: "0 < a\<^sup>2 + a * (9 * t\<^sup>2) - 162 * t" by linarith
  from p1 p2 have "0 < (a - 9 * t\<^sup>2) * (a\<^sup>2 + a * (9 * t\<^sup>2) - 162 * t)"
    by (rule mult_pos_pos)
  then have "0 < a ^ 3 - 2 * a * (81 * t) + 2 * (81 * t) * (9 * t\<^sup>2) - a * (9 * t\<^sup>2)\<^sup>2"
    by (simp only: fac)
  then have "a ^ 3 - 2 * a * (81 * t) + 2 * (81 * t) * (9 * t\<^sup>2) - a * (9 * t\<^sup>2)\<^sup>2 \<noteq> 0"
    by (rule less_imp_neq [THEN not_sym])
  then show ?thesis unfolding b2 c a_def .
qed

lemma scenario_inverse:
  "exact_inverse_of_gram (kernel_params 3 1 (1 / 10 ^ 6)) [1, 2, 3]
     (cofactor_inverse3 (9 + 1 / 10 ^ 6) (9 * exp (- (1 / 2))) (9 * exp (- 2)))"
  unfolding exact_inverse_of_gram_def
  using cofactor_inverse3_correct [OF scenario_determinant] scenario_gram
  by (simp add: kernel_params_def)

lemma upt2: "[0..<2] = [0, 1]"
  by (simp add: upt_rec)

lemma cofactor_inverse2_correct:
  fixes a b :: real
  assumes "a\<^sup>2 - b\<^sup>2 \<noteq> 0"
  shows "is_inverse [[a, b], [b, a]] (cofactor_inverse2 a b)"
proof -
  define d where "d = a\<^sup>2 - b\<^sup>2"
  have d: "d \<noteq> 0" using assms by (simp add: d_def)
  have e1: "a * (a / d) + b * (- b / d) = 1"
    using scaled_sum3 [OF d, of a a b "- b" 0 0 1] by (simp add: d_def power2_eq_square)
  have e2: "a * (- b / d) + b * (a / d) = 0"
    using scaled_sum3 [OF d, of a "- b" b a 0 0 0] by simp
  have e3: "b * (a / d) + a * (- b / d) = 0"
    using scaled_sum3 [OF d, of b a a "- b" 0 0 0] by simp
  have e4: "b * (- b / d) + a * (a / d) = 1"
    using scaled_sum3 [OF d, of b "- b" a a 0 0 1] by (simp add: d_def power2_eq_square)
  have inv: "cofactor_inverse2 a b = [[a / d, - b / d], [- b / d, a / d]]"
    by (simp add: cofactor_inverse2_def d_def Let_def)
  have r1: "matmul [[a, b], [b, a]] (cofactor_inverse2 a b) = identity 2"
    unfolding inv matmul_def vec_mat_def ncols_def column_def dot_def identity_def
    using e1 e2 e3 e4 by (simp add: upt2)
  have r2: "matmul (cofactor_inverse2 a b) [[a, b], [b, a]] = identity 2"
    unfolding inv matmul_def vec_mat_def ncols_def column_def dot_def identity_def
    using e1 e2 e3 e4 by (simp add: upt2 mult.commute)
  have r3: "has_shape 2 2 (cofactor_inverse2 a b)"
    unfolding inv has_shape_def by simp
  have len: "length [[a, b], [b, a]] = 2" by simp
  show ?thesis unfolding is_inverse_def len using r1 r2 r3 by simp
qed

lemma unit_gram2:
  "x1 \<noteq> x2 \<Longrightarrow> (x1 - x2)\<^sup>2 = 1 \<Longrightarrow>
     exact_inverse_of_gram (kernel_params 1 1 0) [x1, x2] (cofactor_inverse2 1 (exp (- (1 / 2))))"
proof -
  assume ne: "x1 \<noteq> x2" and sq: "(x1 - x2)\<^sup>2 = 1"
  have sq': "(x2 - x1)\<^sup>2 = 1" using sq by (simp add: power2_commute)
  have K: "compute_K [x1, x2] 1 1 0 = Inr [[1, exp (- (1 / 2))], [exp (- (1 / 2)), 1]]"
    using ne by (simp add: compute_K_def kernel_def sq sq')
  have "exp (- (1 / 2) :: real) < 1" by simp
  then have "(exp (- (1 / 2) :: real))\<^sup>2 < 1"
    by (simp add: power_less_one_iff)
  then have "1\<^sup>2 - (exp (- (1 / 2) :: real))\<^sup>2 \<noteq> 0" by simp
  from cofactor_inverse2_correct [OF this] K show ?thesis
    by (simp add: exact_inverse_of_gram_def kernel_params_def)
qed

subsection \<open>Reordering the training set\<close>

lemma sum_delta_right:
  fixes f :: "nat \<Rightarrow> real"
  assumes "m < n"
  shows "(\<Sum>j<n. f j * (if j = m then 1 else 0)) = f m"
proof -
  have "(\<Sum>j<n. f j * (if j = m then 1 else 0)) = (\<Sum>j\<in>{..<n}. if j = m then f j else 0)"
    by (intro sum.cong refl) simp
  also have "\<dots> = f m" using assms by (simp add: sum.delta)
  finally show ?thesis .
qed

lemma inverse_reindex:
  fixes a b b' :: "nat \<Rightarrow> nat \<Rightarrow> real"
  assumes bij: "bij_betw f {..<n} {..<n}"
    and R: "\<And>i j. i < n \<Longrightarrow> j < n \<Longrightarrow> (\<Sum>m<n. a i m * b m j) = (if i = j then 1 else 0)"
    and L: "\<And>i j. i < n \<Longrightarrow> j < n \<Longrightarrow> (\<Sum>m<n. b' i m * a (f m) (f j)) = (if i = j then 1 else 0)"
    and i: "i < n" and j: "j < n"
  shows "b' i j = b (f i) (f j)"
proof -
  have f_in: "f q < n" if "q < n" for q
    using bij that by (auto simp: bij_betw_def)
  have f_inj: "f q = f r \<longleftrightarrow> q = r" if "q < n" "r < n" for q r
    using bij that by (auto simp: bij_betw_def inj_on_def)
  have Rp: "(\<Sum>q<n. a (f m) (f q) * b (f q) (f j)) = (if m = j then 1 else 0)" if "m < n" for m
  proof -
    have "(\<Sum>q<n. a (f m) (f q) * b (f q) (f j)) = (\<Sum>q<n. a (f m) q * b q (f j))"
      using sum.reindex_bij_betw [OF bij, of "\<lambda>q. a (f m) q * b q (f j)"] .
    also have "\<dots> = (if f m = f j then 1 else 0)"
      using R [of "f m" "f j"] f_in that j by simp
    also have "\<dots> = (if m = j then 1 else 0)"
      using f_inj [OF that j] by simp
    finally show ?thesis .
  qed
  have "(\<Sum>q<n. (\<Sum>m<n. b' i m * a (f m) (f q)) * b (f q) (f j))
          = (\<Sum>q<n. (if i = q then 1 else 0) * b (f q) (f j))"
    by (intro sum.cong refl) (simp add: L i)
  also have "\<dots> = b (f i) (f j)" using i by (rule sum_delta_left)
  finally have one: "(\<Sum>q<n. (\<Sum>m<n. b' i m * a (f m) (f q)) * b (f q) (f j)) = b (f i) (f j)" .
  have "(\<Sum>q<n. (\<Sum>m<n. b' i m * a (f m) (f q)) * b (f q) (f j))
          = (\<Sum>q<n. \<Sum>m<n. b' i m * (a (f m) (f q) * b (f q) (f j)))"
    by (simp add: sum_distrib_right mult.assoc)
  also have "\<dots> = (\<Sum>m<n. \<Sum>q<n. b' i m * (a (f m) (f q) * b (f q) (f j)))"
    by (rule sum.swap)
  also have "\<dots> = (\<Sum>m<n. b' i m * (\<Sum>q<n. a (f m) (f q) * b (f q) (f j)))"
    by (simp add: sum_distrib_left)
  also have "\<dots> = (\<Sum>m<n. b' i m * (if m = j then 1 else 0))"
    by (intro sum.cong refl) (simp add: Rp)
  also have "\<dots> = b' i j" using j by (rule sum_delta_right)
  finally show ?thesis using one by simp
qed

lemma GPpredict_reorder:
  assumes p: "mset p = mset [0..<length X]" and len: "length Y = length X"
    and inv: "exact_inverse_of_gram g X Kinv"
    and inv': "exact_inverse_of_gram g (map ((!) X) p) Kinv'"
  shows "GPpredict g x_new (map ((!) X) p) (map ((!) Y) p) Kinv' = GPpredict g x_new X Y Kinv"
proof -
  define n where "n = length X"
  define k where "k = squared_exponential (g_sigma_kernel g) (g_l g) (g_sigma_noise g)"
  define f where "f = (!) p"
  have lp: "length p = n"
    using mset_eq_length [OF p] by (simp add: n_def)
  have "distinct p" "set p = {..<n}"
    using mset_eq_imp_distinct_iff [OF p] mset_eq_setD [OF p] by (auto simp: n_def)
  then have bij: "bij_betw f {..<n} {..<n}"
    unfolding f_def using lp by (intro bij_betw_nth) simp_all
  have f_in: "f q < n" if "q < n" for q
    using bij that by (auto simp: bij_betw_def)
  have l: "g_l g \<noteq> 0" using exact_inverse_of_gramD(1) [OF inv] by simp
  have X': "map ((!) X) p ! i = X ! f i" if "i < n" for i
    using that lp by (simp add: f_def)
  have Y': "map ((!) Y) p ! i = Y ! f i" if "i < n" for i
    using that lp by (simp add: f_def)
  have R: "(\<Sum>m<n. k (X ! i) (X ! m) * Kinv ! m ! j) = (if i = j then 1 else 0)"
    if "i < n" "j < n" for i j
    using exact_inverse_right [OF inv, of i j] that by (simp add: n_def k_def)
  have L: "(\<Sum>m<n. Kinv' ! i ! m * k (X ! f m) (X ! f j)) = (if i = j then 1 else 0)"
    if "i < n" "j < n" for i j
  proof -
    have "(\<Sum>m<n. Kinv' ! i ! m * k (map ((!) X) p ! m) (map ((!) X) p ! j)) = (if i = j then 1 else 0)"
      using exact_inverse_left [OF inv', of i j] that lp by (simp add: k_def)
    moreover have "(\<Sum>m<n. Kinv' ! i ! m * k (map ((!) X) p ! m) (map ((!) X) p ! j))
                     = (\<Sum>m<n. Kinv' ! i ! m * k (X ! f m) (X ! f j))"
      using that by (intro sum.cong refl) (simp add: X')
    ultimately show ?thesis by simp
  qed
  have B: "Kinv' ! i ! j = Kinv ! f i ! f j" if "i < n" "j < n" for i j
    using inverse_reindex [OF bij, of "\<lambda>i j. k (X ! i) (X ! j)" "\<lambda>i j. Kinv ! i ! j"
        "\<lambda>i j. Kinv' ! i ! j" i j] R L that by simp
  have row: "(\<Sum>i<n. k (map ((!) X) p ! i) x_new * Kinv' ! i ! j)
               = (\<Sum>i<n. k (X ! i) x_new * Kinv ! i ! f j)" if "j < n" for j
  proof -
    have "(\<Sum>i<n. k (map ((!) X) p ! i) x_new * Kinv' ! i ! j)
            = (\<Sum>i<n. k (X ! f i) x_new * Kinv ! f i ! f j)"
      using that by (intro sum.cong refl) (simp add: X' B)
    also have "\<dots> = (\<Sum>i<n. k (X ! i) x_new * Kinv ! i ! f j)"
      using sum.reindex_bij_betw [OF bij, of "\<lambda>i. k (X ! i) x_new * Kinv ! i ! f j"] .
    finally show ?thesis .
  qed
  have mean: "(\<Sum>j<n. (\<Sum>i<n. k (map ((!) X) p ! i) x_new * Kinv' ! i ! j) * map ((!) Y) p ! j)
                = (\<Sum>j<n. (\<Sum>i<n. k (X ! i) x_new * Kinv ! i ! j) * Y ! j)"
  proof -
    have "(\<Sum>j<n. (\<Sum>i<n. k (map ((!) X) p ! i) x_new * Kinv' ! i ! j) * map ((!) Y) p ! j)
            = (\<Sum>j<n. (\<Sum>i<n. k (X ! i) x_new * Kinv ! i ! f j) * Y ! f j)"
    proof (rule sum.cong [OF refl])
      fix j assume "j \<in> {..<n}"
      then have j: "j < n" by simp
      show "(\<Sum>i<n. k (map ((!) X) p ! i) x_new * Kinv' ! i ! j) * map ((!) Y) p ! j
              = (\<Sum>i<n. k (X ! i) x_new * Kinv ! i ! f j) * Y ! f j"
        unfolding row [OF j] Y' [OF j] ..
    qed
    also have "\<dots> = (\<Sum>j<n. (\<Sum>i<n. k (X ! i) x_new * Kinv ! i ! j) * Y ! j)"
      using sum.reindex_bij_betw [OF bij, of "\<lambda>j. (\<Sum>i<n. k (X ! i) x_new * Kinv ! i ! j) * Y ! j"] .
    finally show ?thesis .
  qed
  have var: "(\<Sum>j<n. (\<Sum>i<n. k (map ((!) X) p ! i) x_new * Kinv' ! i ! j) * k (map ((!) X) p ! j) x_new)
                = (\<Sum>j<n. (\<Sum>i<n. k (X ! i) x_new * Kinv ! i ! j) * k (X ! j) x_new)"
  proof -
    have "(\<Sum>j<n. (\<Sum>i<n. k (map ((!) X) p ! i) x_new * Kinv' ! i ! j) * k (map ((!) X) p ! j) x_new)
            = (\<Sum>j<n. (\<Sum>i<n. k (X ! i) x_new * Kinv ! i ! f j) * k (X ! f j) x_new)"
    proof (rule sum.cong [OF refl])
      fix j assume "j \<in> {..<n}"
      then have j: "j < n" by simp
      show "(\<Sum>i<n. k (map ((!) X) p ! i) x_new * Kinv' ! i ! j) * k (map ((!) X) p ! j) x_new
              = (\<Sum>i<n. k (X ! i) x_new * Kinv ! i ! f j) * k (X ! f j) x_new"
        unfolding row [OF j] X' [OF j] ..
    qed
    also have "\<dots> = (\<Sum>j<n. (\<Sum>i<n. k (X ! i) x_new * Kinv ! i ! j) * k (X ! j) x_new)"
      using sum.reindex_bij_betw [OF bij, of "\<lambda>j. (\<Sum>i<n. k (X ! i) x_new * Kinv ! i ! j) * k (X ! j) x_new"] .
    finally show ?thesis .
  qed
  have s: "has_shape n n Kinv" "has_shape n n Kinv'"
    using exact_inverse_shape [OF inv] exact_inverse_shape [OF inv'] lp by (simp_all add: n_def)
  have v1: "GPpredict g x_new X Y Kinv =
          Inr ((\<Sum>j<n. (\<Sum>i<n. k (X ! i) x_new * Kinv ! i ! j) * Y ! j),
               k x_new x_new - (\<Sum>j<n. (\<Sum>i<n. k (X ! i) x_new * Kinv ! i ! j) * k (X ! j) x_new))"
    using GPpredict_value [OF l, of Y X Kinv x_new] s len by (simp add: n_def k_def)
  have v2: "GPpredict g x_new (map ((!) X) p) (map ((!) Y) p) Kinv' =
          Inr ((\<Sum>j<n. (\<Sum>i<n. k (map ((!) X) p ! i) x_new * Kinv' ! i ! j) * map ((!) Y) p ! j),
               k x_new x_new - (\<Sum>j<n. (\<Sum>i<n. k (map ((!) X) p ! i) x_new * Kinv' ! i ! j)
                                   * k (map ((!) X) p ! j) x_new))"
    using GPpredict_value [OF l, of "map ((!) Y) p" "map ((!) X) p" Kinv' x_new] s lp
    by (simp add: k_def)
  show ?thesis unfolding v1 v2 mean var ..
qed

lemma shift_nth:
  "(ys1 @ x # ys2) ! (if i < length ys1 then i else Suc i) = (ys1 @ ys2) ! i"
proof (cases "i < length ys1")
  case True
  then show ?thesis by (simp add: nth_append)
next
  case False
  then have "Suc i - length ys1 = Suc (i - length ys1)" by simp
  with False show ?thesis by (simp add: nth_append)
qed

lemma shift_upt:
  "map (\<lambda>i. if i < a then i else Suc i) [0..<a + d] = [0..<a] @ [Suc a..<Suc (a + d)]"
proof -
  have split: "[0..<a + d] = [0..<a] @ [a..<a + d]"
    by (rule upt_add_eq_append) simp
  have "map (\<lambda>i. if i < a then i else Suc i) [0..<a] = map (\<lambda>i. i) [0..<a]"
    by (rule map_cong) simp_all
  moreover have "map (\<lambda>i. if i < a then i else Suc i) [a..<a + d] = map Suc [a..<a + d]"
    by (rule map_cong) simp_all
  ultimately have "map (\<lambda>i. if i < a then i else Suc i) [0..<a + d] = [0..<a] @ map Suc [a..<a + d]"
    by (simp only: split map_append map_ident)
  then show ?thesis by (simp only: map_Suc_upt)
qed

lemma upt_insert:
  "[0..<Suc (a + d)] = [0..<a] @ a # [Suc a..<Suc (a + d)]"
proof -
  have "[0..<a + Suc d] = [0..<a] @ [a..<a + Suc d]"
    by (rule upt_add_eq_append) simp
  moreover have "[a..<a + Suc d] = a # [Suc a..<a + Suc d]"
    by (rule upt_conv_Cons) simp
  ultimately show ?thesis by simp
qed

lemma mset_eq_reorder:
  "mset xs = mset ys \<Longrightarrow> \<exists>p. mset p = mset [0..<length ys] \<and> xs = map ((!) ys) p"
proof (induction xs arbitrary: ys)
  case Nil
  then show ?case by simp
next
  case (Cons x xs)
  have "x \<in> set ys" using mset_eq_setD [OF Cons.prems] by auto
  from split_list [OF this] obtain ys1 ys2 where ys: "ys = ys1 @ x # ys2" by blast
  have "mset (x # xs) = mset (ys1 @ x # ys2)" using Cons.prems unfolding ys .
  then have "mset xs = mset (ys1 @ ys2)" by simp
  then have "\<exists>p. mset p = mset [0..<length (ys1 @ ys2)] \<and> xs = map ((!) (ys1 @ ys2)) p"
    by (rule Cons.IH)
  then obtain q where
    q: "mset q = mset [0..<length (ys1 @ ys2)]" and xs: "xs = map ((!) (ys1 @ ys2)) q"
    by blast
  have q': "mset q = mset [0..<length ys1 + length ys2]"
    using q by (simp only: length_append)
  define s where "s = (\<lambda>i. if i < length ys1 then i else Suc i)"
  have m: "map ((!) ys) (map s q) = map ((!) (ys1 @ ys2)) q"
    unfolding map_map ys s_def by (rule map_cong) (simp_all only: o_def shift_nth)
  have h: "ys ! length ys1 = x" by (simp add: ys)
  have 1: "x # xs = map ((!) ys) (length ys1 # map s q)"
    unfolding list.map h m xs ..
  have "mset (map s q) = mset (map s [0..<length ys1 + length ys2])"
    using q' by (simp only: mset_map)
  also have "\<dots> = mset ([0..<length ys1] @ [Suc (length ys1)..<Suc (length ys1 + length ys2)])"
    unfolding s_def by (simp only: shift_upt)
  finally have "mset (length ys1 # map s q) = mset [0..<Suc (length ys1 + length ys2)]"
    by (simp only: upt_insert [of "length ys1" "length ys2"] mset.simps mset_append) simp
  moreover have "length ys = Suc (length ys1 + length ys2)" by (simp add: ys)
  ultimately have 2: "mset (length ys1 # map s q) = mset [0..<length ys]"
    by (simp only:)
  show ?case
  proof (intro exI conjI)
    show "mset (length ys1 # map s q) = mset [0..<length ys]" by (rule 2)
    show "x # xs = map ((!) ys) (length ys1 # map s q)" by (rule 1)
  qed
qed

subsection \<open>Queries far from the training inputs\<close>

lemma kernel_far:
  assumes "l \<noteq> 0"
  shows "((\<lambda>x. squared_exponential s l n c x) \<longlongrightarrow> 0) at_infinity"
proof -
  have "filterlim (\<lambda>x::real. - c + x) at_infinity at_infinity"
    by (intro tendsto_add_filterlim_at_infinity [where c = "- c"] tendsto_const filterlim_ident)
  then have "filterlim (\<lambda>x::real. norm (- c + x)) at_top at_infinity"
    by (rule filterlim_at_infinity_imp_norm_at_top)
  then have "filterlim (\<lambda>x::real. (norm (- c + x)) ^ 2) at_top at_infinity"
    by (intro filterlim_pow_at_top) simp_all
  then have sq: "filterlim (\<lambda>x::real. (c - x)\<^sup>2) at_top at_infinity"
    by (simp add: power2_commute [of c])
  have pos: "0 < 1 / (2 * l\<^sup>2)" using assms by simp
  have "filterlim (\<lambda>x::real. 1 / (2 * l\<^sup>2) * (c - x)\<^sup>2) at_top at_infinity"
    by (rule filterlim_tendsto_pos_mult_at_top [OF tendsto_const pos sq])
  then have "filterlim (\<lambda>x::real. - (1 / (2 * l\<^sup>2) * (c - x)\<^sup>2)) at_bot at_infinity"
    by (simp add: filterlim_uminus_at_bot)
  then have "((\<lambda>x::real. exp (- (1 / (2 * l\<^sup>2) * (c - x)\<^sup>2))) \<longlongrightarrow> 0) at_infinity"
    by (rule filterlim_compose [OF exp_at_bot])
  then have e: "((\<lambda>x::real. exp (- ((c - x)\<^sup>2) / (2 * l\<^sup>2))) \<longlongrightarrow> 0) at_infinity"
    by simp
  have "eventually (\<lambda>x::real. (if c = x then n else 0) = 0) at_infinity"
    unfolding eventually_at_infinity by (rule exI [of _ "\<bar>c\<bar> + 1"]) auto
  then have i: "((\<lambda>x::real. if c = x then n else 0) \<longlongrightarrow> 0) at_infinity"
    by (rule tendsto_eventually)
  have "((\<lambda>x::real. s\<^sup>2 * exp (- ((c - x)\<^sup>2) / (2 * l\<^sup>2)) + (if c = x then n else 0))
           \<longlongrightarrow> s\<^sup>2 * 0 + 0) at_infinity"
    by (intro tendsto_add tendsto_mult tendsto_const e i)
  then show ?thesis by (simp add: squared_exponential_def)
qed

subsection \<open>Running the body of \<open>GPpredict\<close>\<close>

text \<open>The state records effects: a write through a reference changes the array that every
  other name for it sees, and a binding changes the local names.\<close>

lemma store_array_visible:
  "py_heap s a = Some (Vec [0]) \<Longrightarrow> py_heap (snd (store_array a (Vec [1]) s)) a \<noteq> py_heap s a"
  by (simp add: store_array_def)

lemma store_local_visible:
  "py_locals s n = None \<Longrightarrow> py_locals (snd (store_local n v s)) n \<noteq> py_locals s n"
  by (simp add: store_local_def)

lemma collect_length: "collect rs = Inr vs \<Longrightarrow> length vs = length rs"
  by (induction rs arbitrary: vs) (auto split: sum.splits)

lemma fold_fill:
  "length vs = n \<Longrightarrow> length r = j + n \<Longrightarrow>
     fold (\<lambda>(i, v) r. r[i := v]) (zip [j..<j + n] vs) r = take j r @ vs"
proof (induction vs arbitrary: j n r)
  case Nil
  then show ?case by simp
next
  case (Cons v vs)
  then obtain m where n: "n = Suc m" and m: "length vs = m" by (cases n) auto
  have upt: "[j..<j + Suc m] = j # [Suc j..<Suc j + m]"
    by (simp add: upt_conv_Cons)
  have len: "length (r[j := v]) = Suc j + m" using Cons.prems n by simp
  have "fold (\<lambda>(i, v) r. r[i := v]) (zip [Suc j..<Suc j + m] vs) (r[j := v])
          = take (Suc j) (r[j := v]) @ vs"
    by (rule Cons.IH [OF m len])
  moreover have "take (Suc j) (r[j := v]) = take j r @ [v]"
    using Cons.prems n by (simp add: take_Suc_conv_app_nth)
  ultimately show ?case unfolding n upt by simp
qed

lemma fold_fill_all:
  "length vs = n \<Longrightarrow> length r = n \<Longrightarrow>
     fold (\<lambda>(i, v) r. r[i := v]) (zip [0..<n] vs) r = vs"
  using fold_fill [of vs n r 0] by simp

lemma product_shape:
  "length row = n \<Longrightarrow>
     (length M = length row \<and> has_shape (length M) (ncols M) M \<and> length (vec_mat row M) = n)
       = has_shape n n M"
  by (cases M) (auto simp: has_shape_def ncols_def vec_mat_def)

lemma loop_body_step:
  assumes G: "py_globals s ''sigma_kernel'' = Some (PyFloat sk)" "py_globals s ''l'' = Some (PyFloat len)"
      "py_globals s ''sigma_noise'' = Some (PyFloat sn)"
    and F: "F ''x_data'' = Some (PyRef ax)" "F ''x_new'' = Some (PyFloat x)"
      "F ''Kstar'' = Some (PyRef (py_next s))"
    and H: "py_heap s ax = Some (Vec xs)" "ax < py_next s"
    and i: "i < length row"
  shows "loop_body i (loop_state s F iv row) =
           (case (if i < length xs then kernel (xs ! i) x sk len sn else Inl IndexError) of
              Inl e \<Rightarrow> (Inl (Raised e), loop_state s F (Some (PyInt i)) row)
            | Inr k \<Rightarrow> (Inr (), loop_state s F (Some (PyInt i)) (row[i := k])))"
  using assms
  by (simp add: loop_body_def loop_state_def and_then_def store_local_def load_local_def
      load_global_def as_int_def as_float_def getitem_def load_array_def call_kernel_def
      setitem0_def store_array_def ok_def raise_def split: sum.splits)

lemma loop_run:
  assumes G: "py_globals s ''sigma_kernel'' = Some (PyFloat sk)" "py_globals s ''l'' = Some (PyFloat len)"
      "py_globals s ''sigma_noise'' = Some (PyFloat sn)"
    and F: "F ''x_data'' = Some (PyRef ax)" "F ''x_new'' = Some (PyFloat x)"
      "F ''Kstar'' = Some (PyRef (py_next s))"
    and H: "py_heap s ax = Some (Vec xs)" "ax < py_next s"
  shows "\<forall>i\<in>set is. i < length row \<Longrightarrow>
         \<exists>iv' row'. length row' = length row
           \<and> for_each is loop_body (loop_state s F iv row)
               = (case collect (map (\<lambda>i. if i < length xs then kernel (xs ! i) x sk len sn
                                            else Inl IndexError) is) of
                    Inl e \<Rightarrow> Inl (Raised e) | Inr vs \<Rightarrow> Inr (),
                  loop_state s F iv' row')
           \<and> (\<forall>vs. collect (map (\<lambda>i. if i < length xs then kernel (xs ! i) x sk len sn
                                            else Inl IndexError) is) = Inr vs
                  \<longrightarrow> row' = fold (\<lambda>(i, v) r. r[i := v]) (zip is vs) row)"
proof (induction "is" arbitrary: iv row)
  case Nil
  show ?case by (intro exI [of _ iv] exI [of _ row]) (simp add: ok_def)
next
  case (Cons i rest)
  let ?f = "\<lambda>i. if i < length xs then kernel (xs ! i) x sk len sn else Inl IndexError"
  have i: "i < length row" using Cons.prems by simp
  note step = loop_body_step [OF G F H i, of iv]
  show ?case
  proof (cases "?f i")
    case (Inl e)
    with step have "for_each (i # rest) loop_body (loop_state s F iv row)
                      = (Inl (Raised e), loop_state s F (Some (PyInt i)) row)"
      by (simp add: and_then_def)
    with Inl show ?thesis
      by (intro exI [of _ "Some (PyInt i)"] exI [of _ row]) simp
  next
    case (Inr k)
    have rest: "\<forall>j\<in>set rest. j < length (row[i := k])" using Cons.prems by simp
    from Cons.IH [OF rest, of "Some (PyInt i)"] obtain iv' row' where
      l: "length row' = length (row[i := k])"
      and r: "for_each rest loop_body (loop_state s F (Some (PyInt i)) (row[i := k]))
               = (case collect (map ?f rest) of Inl e \<Rightarrow> Inl (Raised e) | Inr vs \<Rightarrow> Inr (),
                  loop_state s F iv' row')"
      and v: "\<forall>vs. collect (map ?f rest) = Inr vs
                \<longrightarrow> row' = fold (\<lambda>(i, v) r. r[i := v]) (zip rest vs) (row[i := k])"
      by blast
    from step Inr have "for_each (i # rest) loop_body (loop_state s F iv row)
                      = for_each rest loop_body (loop_state s F (Some (PyInt i)) (row[i := k]))"
      by (simp add: and_then_def)
    with r l v Inr show ?thesis
      by (intro exI [of _ iv'] exI [of _ row']) (auto split: sum.splits)
  qed
qed

lemma loop_state_simps:
  "py_globals (loop_state s F iv row) = py_globals s"
  "py_locals (loop_state s F iv row) = F(''i'' := iv)"
  "py_heap (loop_state s F iv row) = (py_heap s)(py_next s \<mapsto> Mat [row])"
  "py_next (loop_state s F iv row) = Suc (py_next s)"
  by (simp_all add: loop_state_def)

lemma prologue_run:
  assumes "py_heap s ay = Some (Vec ys)"
  shows "and_then stmt_N (\<lambda>_. stmt_Kstar)
           (s\<lparr>py_locals := [''x_new'' \<mapsto> xn, ''x_data'' \<mapsto> xd, ''y_data'' \<mapsto> PyRef ay, ''Kinv'' \<mapsto> ki]\<rparr>)
         = (Inr (), loop_state s
              [''x_new'' \<mapsto> xn, ''x_data'' \<mapsto> xd, ''y_data'' \<mapsto> PyRef ay, ''Kinv'' \<mapsto> ki,
               ''N'' \<mapsto> PyInt (length ys), ''Kstar'' \<mapsto> PyRef (py_next s)]
              None (replicate (length ys) 0))"
  using assms
  by (simp add: stmt_N_def stmt_Kstar_def loop_state_def and_then_def load_local_def shape0_def
      load_array_def store_local_def as_int_def new_array_def ok_def fun_upd_idem)

lemma for_run:
  assumes "F ''N'' = Some (PyInt n)"
  shows "stmt_for (loop_state s F iv row) = for_each [0..<n] loop_body (loop_state s F iv row)"
  using assms
  by (simp add: stmt_for_def and_then_def load_local_def as_int_def ok_def loop_state_simps)

lemma matmul_row_run:
  assumes "py_heap t a = Some (Mat [ks])" "py_heap t ak = Some (Mat K)"
  shows "matmul_row (PyRef a) (PyRef ak) t
           = (if length K = length ks \<and> has_shape (length K) (ncols K) K
              then Inr (vec_mat ks K) else Inl (Raised ValueError), t)"
  using assms
  by (auto simp add: matmul_row_def and_then_def load_array_def ok_def raise_def)

lemma mu_run:
  assumes F: "py_locals t ''y_data'' = Some (PyRef ay)" "py_locals t ''Kinv'' = Some (PyRef ak)"
      "py_locals t ''Kstar'' = Some (PyRef a)"
    and H: "py_heap t ay = Some (Vec ys)" "py_heap t ak = Some (Mat K)" "py_heap t a = Some (Mat [ks])"
    and n: "length ks = length ys"
  shows "stmt_mu t =
           (if has_shape (length ys) (length ys) K
            then (Inr (), t\<lparr>py_locals := (py_locals t)(''mu'' \<mapsto> PyRef (py_next t)),
                             py_heap := (py_heap t)(py_next t \<mapsto> Vec [dot (vec_mat ks K) ys]),
                             py_next := Suc (py_next t)\<rparr>)
            else (Inl (Raised ValueError), t))"
proof -
  have shape: "has_shape (length ys) (length ys) K
                 = (length K = length ks \<and> has_shape (length K) (ncols K) K
                    \<and> length (vec_mat ks K) = length ys)"
    using product_shape [where row = ks and M = K and n = "length ys"] n by simp
  show ?thesis
    unfolding shape using F H matmul_row_run [OF H(3) H(2)]
    by (auto simp add: stmt_mu_def and_then_def load_local_def load_array_def times_vec_def
        new_array_def store_local_def ok_def raise_def)
qed

lemma sigma_run:
  assumes G: "py_globals t ''sigma_kernel'' = Some (PyFloat sk)" "py_globals t ''l'' = Some (PyFloat len)"
      "py_globals t ''sigma_noise'' = Some (PyFloat sn)"
    and F: "py_locals t ''x_new'' = Some (PyFloat x)" "py_locals t ''Kinv'' = Some (PyRef ak)"
      "py_locals t ''Kstar'' = Some (PyRef a)"
    and H: "py_heap t ak = Some (Mat K)" "py_heap t a = Some (Mat [ks])"
    and shape: "has_shape (length ks) (length ks) K"
  shows "stmt_sigma t =
           (case kernel x x sk len sn of
              Inl e \<Rightarrow> (Inl (Raised e), t)
            | Inr kxx \<Rightarrow>
                (Inr (), t\<lparr>py_locals := (py_locals t)(''sigma'' \<mapsto> PyRef (py_next t)),
                          py_heap := (py_heap t)(py_next t \<mapsto> Mat [[kxx - dot (vec_mat ks K) ks]]),
                          py_next := Suc (py_next t)\<rparr>))"
proof -
  have "(length K = length ks \<and> has_shape (length K) (ncols K) K
          \<and> length (vec_mat ks K) = length ks) = has_shape (length ks) (length ks) K"
    by (rule product_shape) (rule refl)
  with shape have "length K = length ks \<and> has_shape (length K) (ncols K) K
          \<and> length (vec_mat ks K) = length ks"
    by blast
  then show ?thesis
    using G F H matmul_row_run [OF H(2) H(1)]
    by (auto simp add: stmt_sigma_def and_then_def load_local_def load_global_def load_array_def
        call_kernel_def as_float_def times_vec_def new_array_def store_local_def ok_def raise_def
        split: sum.splits)
qed

lemma call_frame_simps:
  "call_frame x ax ay ak n a ''x_new'' = Some (PyFloat x)"
  "call_frame x ax ay ak n a ''x_data'' = Some (PyRef ax)"
  "call_frame x ax ay ak n a ''y_data'' = Some (PyRef ay)"
  "call_frame x ax ay ak n a ''Kinv'' = Some (PyRef ak)"
  "call_frame x ax ay ak n a ''N'' = Some (PyInt n)"
  "call_frame x ax ay ak n a ''Kstar'' = Some (PyRef a)"
  by (simp_all add: call_frame_def)

lemma and_then_assoc:
  "and_then (and_then m f) g = and_then m (\<lambda>v. and_then (f v) g)"
  by (simp add: and_then_def fun_eq_iff split: prod.splits sum.splits)

lemma observed_pop: "observed (r, s\<lparr>py_locals := L\<rparr>) = observed (r, s)"
  by (simp add: observed_def split: sum.splits prod.splits pyval.splits)

lemma epilogue_run:
  assumes G: "py_globals s ''sigma_kernel'' = Some (PyFloat sk)" "py_globals s ''l'' = Some (PyFloat len)"
      "py_globals s ''sigma_noise'' = Some (PyFloat sn)"
    and H: "py_heap s ay = Some (Vec ys)" "ay < py_next s" "py_heap s ak = Some (Mat K)" "ak < py_next s"
    and n: "length ks = length ys"
    and out: "out = and_then stmt_mu (\<lambda>_. and_then stmt_sigma (\<lambda>_. stmt_return))
                      (loop_state s (call_frame x ax ay ak (length ys) (py_next s)) iv ks)"
  shows "observed out =
           (case (if \<not> has_shape (length ys) (length ys) K then Inl ValueError
                  else case kernel x x sk len sn of
                         Inl e \<Rightarrow> Inl e
                       | Inr kxx \<Rightarrow> Inr (dot (vec_mat ks K) ys, kxx - dot (vec_mat ks K) ks)) of
              Inl e \<Rightarrow> Inl (Raised e)
            | Inr (m, v) \<Rightarrow> Inr (Some (Vec [m]), Some (Mat [[v]])))"
    and "py_globals (snd out) = py_globals s"
    and "\<forall>a<py_next s. py_heap (snd out) a = py_heap s a"
proof -
  let ?t = "loop_state s (call_frame x ax ay ak (length ys) (py_next s)) iv ks"
  let ?t1 = "?t\<lparr>py_locals := (py_locals ?t)(''mu'' \<mapsto> PyRef (py_next ?t)),
                 py_heap := (py_heap ?t)(py_next ?t \<mapsto> Vec [dot (vec_mat ks K) ys]),
                 py_next := Suc (py_next ?t)\<rparr>"
  have mu: "stmt_mu ?t = (if has_shape (length ys) (length ys) K then (Inr (), ?t1)
                          else (Inl (Raised ValueError), ?t))"
    using H by (intro mu_run [where ay = ay and ak = ak and a = "py_next s"] n)
      (auto simp add: loop_state_simps call_frame_simps)
  have sg: "has_shape (length ys) (length ys) K \<Longrightarrow> stmt_sigma ?t1 =
           (case kernel x x sk len sn of
              Inl e \<Rightarrow> (Inl (Raised e), ?t1)
            | Inr kxx \<Rightarrow>
                (Inr (), ?t1\<lparr>py_locals := (py_locals ?t1)(''sigma'' \<mapsto> PyRef (py_next ?t1)),
                          py_heap := (py_heap ?t1)(py_next ?t1 \<mapsto> Mat [[kxx - dot (vec_mat ks K) ks]]),
                          py_next := Suc (py_next ?t1)\<rparr>))"
    using G H n by (intro sigma_run [where ak = ak and a = "py_next s"])
      (auto simp add: loop_state_simps call_frame_simps)
  show "observed out =
           (case (if \<not> has_shape (length ys) (length ys) K then Inl ValueError
                  else case kernel x x sk len sn of
                         Inl e \<Rightarrow> Inl e
                       | Inr kxx \<Rightarrow> Inr (dot (vec_mat ks K) ys, kxx - dot (vec_mat ks K) ks)) of
              Inl e \<Rightarrow> Inl (Raised e)
            | Inr (m, v) \<Rightarrow> Inr (Some (Vec [m]), Some (Mat [[v]])))"
    unfolding out using mu sg
    by (cases "kernel x x sk len sn")
      (auto simp add: and_then_def observed_def stmt_return_def load_local_def ok_def loop_state_simps)
  show "py_globals (snd out) = py_globals s"
    unfolding out using mu sg
    by (cases "kernel x x sk len sn")
      (auto simp add: and_then_def stmt_return_def load_local_def ok_def loop_state_simps)
  show "\<forall>a<py_next s. py_heap (snd out) a = py_heap s a"
    unfolding out using mu sg
    by (cases "kernel x x sk len sn")
      (auto simp add: and_then_def stmt_return_def load_local_def ok_def loop_state_simps)
qed

lemma call_run:
  assumes G: "py_globals s ''sigma_kernel'' = Some (PyFloat sk)" "py_globals s ''l'' = Some (PyFloat len)"
      "py_globals s ''sigma_noise'' = Some (PyFloat sn)"
    and H: "py_heap s ax = Some (Vec xs)" "py_heap s ay = Some (Vec ys)" "py_heap s ak = Some (Mat K)"
    and wf: "\<forall>a\<in>dom (py_heap s). a < py_next s"
    and out: "out = GPpredict_call (PyFloat x) (PyRef ax) (PyRef ay) (PyRef ak) s"
  shows "observed out =
           (case GPpredict (kernel_params sk len sn) x xs ys K of
              Inl e \<Rightarrow> Inl (Raised e)
            | Inr (m, v) \<Rightarrow> Inr (Some (Vec [m]), Some (Mat [[v]])))"
    and "py_globals (snd out) = py_globals s"
    and "py_locals (snd out) = py_locals s"
    and "\<forall>a\<in>dom (py_heap s). py_heap (snd out) a = py_heap s a"
proof -
  define n where "n = length ys"
  define F where "F = call_frame x ax ay ak n (py_next s)"
  define f where "f = (\<lambda>i. if i < length xs then kernel (xs ! i) x sk len sn else Inl IndexError)"
  define epi where "epi = and_then stmt_mu (\<lambda>_. and_then stmt_sigma (\<lambda>_. stmt_return))"
  define s0 where "s0 = s\<lparr>py_locals := [''x_new'' \<mapsto> PyFloat x, ''x_data'' \<mapsto> PyRef ax,
                                         ''y_data'' \<mapsto> PyRef ay, ''Kinv'' \<mapsto> PyRef ak]\<rparr>"
  have below: "ax < py_next s" "ay < py_next s" "ak < py_next s"
    using wf H by (auto simp: dom_def)
  have old: "a < py_next s" if "a \<in> dom (py_heap s)" for a
    using wf that by simp
  have body: "GPpredict_body = and_then (and_then stmt_N (\<lambda>_. stmt_Kstar))
                                 (\<lambda>_. and_then stmt_for (\<lambda>_. epi))"
    by (simp add: GPpredict_body_def epi_def and_then_assoc)
  have pro: "and_then stmt_N (\<lambda>_. stmt_Kstar) s0 = (Inr (), loop_state s F None (replicate n 0))"
    unfolding s0_def F_def n_def call_frame_def by (rule prologue_run [OF H(2)])
  have loop: "\<exists>iv' row'. length row' = n
           \<and> for_each [0..<n] loop_body (loop_state s F None (replicate n 0))
               = (case collect (map f [0..<n]) of Inl e \<Rightarrow> Inl (Raised e) | Inr vs \<Rightarrow> Inr (),
                  loop_state s F iv' row')
           \<and> (\<forall>vs. collect (map f [0..<n]) = Inr vs
                  \<longrightarrow> row' = fold (\<lambda>(i, v) r. r[i := v]) (zip [0..<n] vs) (replicate n 0))"
    using loop_run [OF G _ _ _ H(1) below(1), of F x "[0..<n]" "replicate n 0" None]
    by (simp add: F_def call_frame_simps f_def)
  then obtain iv' row' where
    len: "length row' = n"
    and run: "for_each [0..<n] loop_body (loop_state s F None (replicate n 0))
               = (case collect (map f [0..<n]) of Inl e \<Rightarrow> Inl (Raised e) | Inr vs \<Rightarrow> Inr (),
                  loop_state s F iv' row')"
    and row: "\<forall>vs. collect (map f [0..<n]) = Inr vs
                \<longrightarrow> row' = fold (\<lambda>(i, v) r. r[i := v]) (zip [0..<n] vs) (replicate n 0)"
    by blast
  have forr: "stmt_for (loop_state s F None (replicate n 0))
               = for_each [0..<n] loop_body (loop_state s F None (replicate n 0))"
    by (rule for_run) (simp add: F_def call_frame_simps)
  have par: "g_sigma_kernel (kernel_params sk len sn) = sk" "g_l (kernel_params sk len sn) = len"
    "g_sigma_noise (kernel_params sk len sn) = sn"
    by (simp_all add: kernel_params_def)
  have ksl: "Kstar_loop (kernel_params sk len sn) x xs n = collect (map f [0..<n])"
    unfolding Kstar_loop_def f_def par ..
  have b0: "GPpredict_body s0
              = and_then stmt_for (\<lambda>_. epi) (loop_state s F None (replicate n 0))"
    unfolding body using pro by (simp add: and_then_def)
  have pop: "out = (case GPpredict_body s0 of (r, s') \<Rightarrow> (r, s'\<lparr>py_locals := py_locals s\<rparr>))"
    by (simp add: out GPpredict_call_def s0_def)
  have all: "observed out =
           (case GPpredict (kernel_params sk len sn) x xs ys K of
              Inl e \<Rightarrow> Inl (Raised e)
            | Inr (m, v) \<Rightarrow> Inr (Some (Vec [m]), Some (Mat [[v]])))
        \<and> py_globals (snd out) = py_globals s
        \<and> py_locals (snd out) = py_locals s
        \<and> (\<forall>a\<in>dom (py_heap s). py_heap (snd out) a = py_heap s a)"
  proof (cases "collect (map f [0..<n])")
    case (Inl e)
    then have "GPpredict_body s0 = (Inl (Raised e), loop_state s F iv' row')"
      using b0 forr run by (simp add: and_then_def)
    moreover have "GPpredict (kernel_params sk len sn) x xs ys K = Inl e"
      using Inl ksl by (simp add: GPpredict_def n_def)
    ultimately show "observed out =
           (case GPpredict (kernel_params sk len sn) x xs ys K of
              Inl e \<Rightarrow> Inl (Raised e)
            | Inr (m, v) \<Rightarrow> Inr (Some (Vec [m]), Some (Mat [[v]])))
        \<and> py_globals (snd out) = py_globals s
        \<and> py_locals (snd out) = py_locals s
        \<and> (\<forall>a\<in>dom (py_heap s). py_heap (snd out) a = py_heap s a)"
      using old by (auto simp add: pop observed_def loop_state_simps)
  next
    case (Inr vs)
    have lvs: "length vs = n" using collect_length [OF Inr] by simp
    have "row' = vs" using row Inr fold_fill_all [OF lvs, of "replicate n 0"] by simp
    then have b1: "GPpredict_body s0 = epi (loop_state s F iv' vs)"
      using b0 forr run Inr by (simp add: and_then_def)
    define o1 where "o1 = epi (loop_state s F iv' vs)"
    have o1: "o1 = and_then stmt_mu (\<lambda>_. and_then stmt_sigma (\<lambda>_. stmt_return))
                      (loop_state s (call_frame x ax ay ak (length ys) (py_next s)) iv' vs)"
      by (simp add: o1_def epi_def F_def n_def)
    have "length vs = length ys" using lvs by (simp add: n_def)
    note e = epilogue_run [OF G H(2) below(2) H(3) below(3) this o1]
    have gp: "GPpredict (kernel_params sk len sn) x xs ys K
                = (if \<not> has_shape (length ys) (length ys) K then Inl ValueError
                   else case kernel x x sk len sn of
                          Inl e \<Rightarrow> Inl e
                        | Inr kxx \<Rightarrow> Inr (dot (vec_mat vs K) ys, kxx - dot (vec_mat vs K) vs))"
      using Inr ksl by (simp add: GPpredict_def n_def Let_def par)
    have out1: "out = (fst o1, (snd o1)\<lparr>py_locals := py_locals s\<rparr>)"
      using pop b1 by (simp add: o1_def split: prod.splits)
    have "observed out = observed o1"
      unfolding out1 using observed_pop [where r = "fst o1" and s = "snd o1" and L = "py_locals s"]
      by simp
    then show "observed out =
           (case GPpredict (kernel_params sk len sn) x xs ys K of
              Inl e \<Rightarrow> Inl (Raised e)
            | Inr (m, v) \<Rightarrow> Inr (Some (Vec [m]), Some (Mat [[v]])))
        \<and> py_globals (snd out) = py_globals s
        \<and> py_locals (snd out) = py_locals s
        \<and> (\<forall>a\<in>dom (py_heap s). py_heap (snd out) a = py_heap s a)"
      using e lvs old by (simp add: gp out1 n_def)
  qed
  from all show "observed out =
           (case GPpredict (kernel_params sk len sn) x xs ys K of
              Inl e \<Rightarrow> Inl (Raised e)
            | Inr (m, v) \<Rightarrow> Inr (Some (Vec [m]), Some (Mat [[v]])))"
    and "py_globals (snd out) = py_globals s"
    and "py_locals (snd out) = py_locals s"
    and "\<forall>a\<in>dom (py_heap s). py_heap (snd out) a = py_heap s a"
    by blast+
qed

section \<open>The claims of the specification\<close>

text \<open>
  Claim C1. For a training set of \<open>N\<close> inputs and targets, a query point \<open>x_new\<close>
  and an \<open>N\<times>N\<close> matrix \<open>Kinv\<close> (as the exact inverse of the Gram matrix is), and
  a length scale other than 0, \<open>GPpredict\<close> returns the mean
  \<open>K* \<sqdot> Kinv \<sqdot> y_data\<close> and the variance \<open>k(x_new, x_new) - K* \<sqdot> Kinv \<sqdot> K*\<^sup>T\<close>,
  where \<open>K*\<close> has length \<open>N\<close> and \<open>K*[i] = k(x_data[i], x_new)\<close>.
\<close>

theorem predict_formula:
  assumes "g_l g \<noteq> 0" and "length x_data = length y_data"
    and "has_shape (length y_data) (length y_data) Kinv"
  shows "\<exists>Kstar kxx.
           length Kstar = length y_data
         \<and> (\<forall>i<length y_data.
               kernel (x_data ! i) x_new (g_sigma_kernel g) (g_l g) (g_sigma_noise g) = Inr (Kstar ! i))
         \<and> kernel x_new x_new (g_sigma_kernel g) (g_l g) (g_sigma_noise g) = Inr kxx
         \<and> GPpredict g x_new x_data y_data Kinv =
             Inr ((\<Sum>j<length y_data. (\<Sum>i<length y_data. Kstar ! i * Kinv ! i ! j) * y_data ! j),
                  kxx - (\<Sum>j<length y_data. (\<Sum>i<length y_data. Kstar ! i * Kinv ! i ! j) * Kstar ! j))"
proof -
  define k where "k = squared_exponential (g_sigma_kernel g) (g_l g) (g_sigma_noise g)"
  define Kstar where "Kstar = map (\<lambda>i. k (x_data ! i) x_new) [0..<length y_data]"
  have 1: "length Kstar = length y_data" by (simp add: Kstar_def)
  have 2: "\<forall>i<length y_data.
             kernel (x_data ! i) x_new (g_sigma_kernel g) (g_l g) (g_sigma_noise g) = Inr (Kstar ! i)"
    using assms(1) by (simp add: Kstar_def k_def kernel_value)
  have 3: "kernel x_new x_new (g_sigma_kernel g) (g_l g) (g_sigma_noise g) = Inr (k x_new x_new)"
    using assms(1) by (simp add: k_def kernel_value)
  have 4: "GPpredict g x_new x_data y_data Kinv =
             Inr ((\<Sum>j<length y_data. (\<Sum>i<length y_data. Kstar ! i * Kinv ! i ! j) * y_data ! j),
                  k x_new x_new - (\<Sum>j<length y_data. (\<Sum>i<length y_data. Kstar ! i * Kinv ! i ! j) * Kstar ! j))"
    using GPpredict_value [OF assms(1) _ assms(3), of x_data x_new] assms(2)
    by (simp add: Kstar_def k_def)
  from 1 2 3 4 show ?thesis by blast
qed

theorem predict_formula_witness:
  "g_l (kernel_params 1 1 0) \<noteq> 0 \<and> length [0::real] = length [2::real]
   \<and> has_shape (length [2::real]) (length [2::real]) [[1]]
   \<and> exact_inverse_of_gram (kernel_params 1 1 0) [0] [[1]]
   \<and> GPpredict (kernel_params 1 1 0) 0 [0] [2] [[1]] = Inr (2, 0)"
proof -
  have h1: "g_l (kernel_params 1 1 0) \<noteq> 0" by (simp add: kernel_params_def)
  have h2: "length [0::real] = length [2::real]" by simp
  have h3: "has_shape (length [2::real]) (length [2::real]) [[1]]" by (simp add: has_shape_def)
  have h4: "exact_inverse_of_gram (kernel_params 1 1 0) [0] [[1]]"
    by (simp add: exact_inverse_of_gram_def compute_K_def kernel_def kernel_params_def is_inverse_def
        has_shape_def matmul_def vec_mat_def ncols_def column_def dot_def identity_def)
  from predict_formula [OF h1 h2 h3, of 0] obtain Kstar kxx where
    k: "kernel ([0] ! 0) 0 (g_sigma_kernel (kernel_params 1 1 0)) (g_l (kernel_params 1 1 0))
          (g_sigma_noise (kernel_params 1 1 0)) = Inr (Kstar ! 0)"
    and kxx: "kernel 0 0 (g_sigma_kernel (kernel_params 1 1 0)) (g_l (kernel_params 1 1 0))
          (g_sigma_noise (kernel_params 1 1 0)) = Inr kxx"
    and r: "GPpredict (kernel_params 1 1 0) 0 [0] [2] [[1]] =
             Inr ((\<Sum>j<length [2::real]. (\<Sum>i<length [2::real]. Kstar ! i * [[1]] ! i ! j) * [2] ! j),
                  kxx - (\<Sum>j<length [2::real]. (\<Sum>i<length [2::real]. Kstar ! i * [[1]] ! i ! j) * Kstar ! j))"
    by auto
  have "Kstar ! 0 = 1" "kxx = 1" using k kxx by (simp_all add: kernel_def kernel_params_def)
  with r have "GPpredict (kernel_params 1 1 0) 0 [0] [2] [[1]] = Inr (2, 0)" by simp
  with h1 h2 h3 h4 show ?thesis by blast
qed

text \<open>
  Claim C2. For a positive length scale, entry \<open>(i, j)\<close> of the Gram matrix is
  \<open>\<sigma>_k\<^sup>2 \<sqdot> exp(-(x_i - x_j)\<^sup>2 / (2l\<^sup>2))\<close>, with \<open>\<sigma>_n\<close> added exactly when the two
  inputs \<open>x_i\<close> and \<open>x_j\<close> are equal, whether or not \<open>i = j\<close>.
\<close>

theorem gram_entry:
  assumes "0 < l" and "i < length X" and "j < length X"
  shows "\<exists>K. compute_K X sigma_kernel l sigma_noise = Inr K
           \<and> K ! i ! j = sigma_kernel\<^sup>2 * exp (- ((X ! i - X ! j)\<^sup>2) / (2 * l\<^sup>2))
                         + (if X ! i = X ! j then sigma_noise else 0)"
proof -
  have "X \<noteq> []" using assms(2) by auto
  from compute_K_value [OF assms(1) this] assms(2,3) show ?thesis
    by (simp add: squared_exponential_def)
qed

theorem gram_entry_witness:
  "(0::real) < 1 \<and> (0::nat) < length [5, 7, 5 :: real] \<and> (2::nat) < length [5, 7, 5 :: real]
   \<and> (\<exists>K. compute_K [5, 7, 5] 3 1 (1/2) = Inr K \<and> K ! 0 ! 2 = 3\<^sup>2 + 1/2)"
  using gram_entry [of 1 0 "[5, 7, 5]" 2 3 "1/2"] by simp

text \<open>
  Claim C3. Building the Gram matrix fails with \<open>InvalidParameter\<close> whenever the length
  scale is \<open>\<le> 0\<close> or the training set is empty; for \<open>l > 0\<close>, \<open>\<sigma>_k \<ge> 0\<close>,
  \<open>\<sigma>_n \<ge> 0\<close> and at least one input it succeeds, with an \<open>N\<times>N\<close> matrix.
\<close>

theorem invalid_parameter:
  "(l \<le> 0 \<or> X = [] \<longrightarrow> compute_K X sigma_kernel l sigma_noise = Inl InvalidParameter)
   \<and> (0 < l \<and> 0 \<le> sigma_kernel \<and> 0 \<le> sigma_noise \<and> X \<noteq> [] \<longrightarrow>
        (\<exists>K. compute_K X sigma_kernel l sigma_noise = Inr K \<and> has_shape (length X) (length X) K))"
proof (intro conjI impI)
  assume "l \<le> 0 \<or> X = []"
  then show "compute_K X sigma_kernel l sigma_noise = Inl InvalidParameter"
    by (simp add: compute_K_def)
next
  assume "0 < l \<and> 0 \<le> sigma_kernel \<and> 0 \<le> sigma_noise \<and> X \<noteq> []"
  then have "compute_K X sigma_kernel l sigma_noise
               = Inr (map (\<lambda>xi. map (\<lambda>xj. squared_exponential sigma_kernel l sigma_noise xi xj) X) X)"
    by (simp add: compute_K_value)
  then show "\<exists>K. compute_K X sigma_kernel l sigma_noise = Inr K \<and> has_shape (length X) (length X) K"
    using gram_shape by simp
qed

theorem invalid_parameter_witness:
  "compute_K [1, 2] 3 0 0 = Inl InvalidParameter
   \<and> compute_K [1, 2] 3 (-1) 0 = Inl InvalidParameter
   \<and> compute_K [] 3 1 0 = Inl InvalidParameter
   \<and> (\<exists>K. compute_K [1, 2] 3 1 0 = Inr K \<and> has_shape 2 2 K)"
  using invalid_parameter [of 0 "[1, 2]" 3 0] invalid_parameter [of "-1" "[1, 2]" 3 0]
    invalid_parameter [of 1 "[]" 3 0] invalid_parameter [of 1 "[1, 2]" 3 0]
  by (simp add: numeral_2_eq_2)

text \<open>
  Claim C4. The kernel is symmetric, \<open>k(x, x') = k(x', x)\<close>, for all inputs and all
  parameters; and every Gram matrix \<open>K\<close> satisfies \<open>K[i][j] = K[j][i]\<close> for all
  \<open>i, j\<close>.
\<close>

theorem kernel_symmetric:
  "kernel x x' sigma_kernel l sigma_noise = kernel x' x sigma_kernel l sigma_noise
   \<and> (\<forall>K. compute_K X sigma_kernel l sigma_noise = Inr K \<longrightarrow>
        (\<forall>i<length X. \<forall>j<length X. K ! i ! j = K ! j ! i))"
proof
  show "kernel x x' sigma_kernel l sigma_noise = kernel x' x sigma_kernel l sigma_noise"
    by (simp add: kernel_def power2_commute [of x x'])
next
  show "\<forall>K. compute_K X sigma_kernel l sigma_noise = Inr K \<longrightarrow>
          (\<forall>i<length X. \<forall>j<length X. K ! i ! j = K ! j ! i)"
  proof (intro allI impI)
    fix K i j
    assume K: "compute_K X sigma_kernel l sigma_noise = Inr K" and i: "i < length X" and j: "j < length X"
    have ok: "0 < l" "X \<noteq> []"
      using K by (auto simp: compute_K_def split: if_splits)
    from compute_K_value [OF ok, of sigma_kernel sigma_noise] K i j show "K ! i ! j = K ! j ! i"
      using squared_exponential_sym [of sigma_kernel l sigma_noise "X ! i" "X ! j"] by auto
  qed
qed

theorem kernel_symmetric_witness:
  "kernel 0 1 2 1 (1/2) = kernel 1 0 2 1 (1/2)
   \<and> compute_K [0, 1] 2 1 (1/2) = Inr [[9/2, 4 * exp (- 1/2)], [4 * exp (- 1/2), 9/2]]
   \<and> [[9/2, 4 * exp (- 1/2)], [4 * exp (- 1/2), 9/2 :: real]] ! 0 ! 1
       = [[9/2, 4 * exp (- 1/2)], [4 * exp (- 1/2), 9/2]] ! 1 ! 0"
proof -
  have K: "compute_K [0, 1] 2 1 (1/2) = Inr [[9/2, 4 * exp (- 1/2)], [4 * exp (- 1/2), 9/2]]"
    by (simp add: compute_K_def kernel_def)
  from kernel_symmetric [of 0 1 2 1 "1/2" "[0, 1]"] K show ?thesis by simp
qed

text \<open>
  Claim C5. For \<open>X = [1, 2, 3]\<close>, \<open>Y = [1, 4, 9]\<close>, \<open>\<sigma>_k = 3\<close>, \<open>l = 1\<close>,
  \<open>\<sigma>_n = 10\<^sup>-\<^sup>6\<close> and \<open>Kinv\<close> the exact inverse of the Gram matrix, the prediction at
  \<open>x = 2\<close> has mean 4 and variance 0 in exact arithmetic: the mean is within
  \<open>10\<^sup>-\<^sup>6\<close> of 4 and the variance lies between 0 and the noise floor \<open>10\<^sup>-\<^sup>6\<close>.
\<close>

theorem concrete_scenario:
  assumes "exact_inverse_of_gram (kernel_params 3 1 (1 / 10 ^ 6)) [1, 2, 3] Kinv"
  shows "\<exists>mean variance.
           GPpredict (kernel_params 3 1 (1 / 10 ^ 6)) 2 [1, 2, 3] [1, 4, 9] Kinv = Inr (mean, variance)
         \<and> mean = 4 \<and> variance = 0
         \<and> \<bar>mean - 4\<bar> \<le> 1 / 10 ^ 6 \<and> 0 \<le> variance \<and> variance \<le> 1 / 10 ^ 6"
  using GPpredict_at_training_point [OF assms, of 1 "[1, 4, 9]"] by simp

theorem concrete_scenario_witness:
  "exact_inverse_of_gram (kernel_params 3 1 (1 / 10 ^ 6)) [1, 2, 3]
     (cofactor_inverse3 (9 + 1 / 10 ^ 6) (9 * exp (- (1 / 2))) (9 * exp (- 2)))
   \<and> GPpredict (kernel_params 3 1 (1 / 10 ^ 6)) 2 [1, 2, 3] [1, 4, 9]
         (cofactor_inverse3 (9 + 1 / 10 ^ 6) (9 * exp (- (1 / 2))) (9 * exp (- 2))) = Inr (4, 0)"
  using concrete_scenario [OF scenario_inverse] scenario_inverse by auto

text \<open>
  Claim C6. For every reordering \<open>(X', Y')\<close> of the (input, target) pairs of a training set
  \<open>(X, Y)\<close>, with \<open>Kinv'\<close> the exact inverse of the Gram matrix of \<open>X'\<close> and
  \<open>Kinv\<close> that of \<open>X\<close>, \<open>GPpredict\<close> returns a mean and a variance at every query
  point, the same for both orderings (equal in exact arithmetic).
\<close>

theorem predict_permutation_invariant:
  assumes perm: "mset (zip X' Y') = mset (zip X Y)"
    and len: "length Y = length X" and len': "length Y' = length X'"
    and inv: "exact_inverse_of_gram g X Kinv" and inv': "exact_inverse_of_gram g X' Kinv'"
  shows "\<exists>mean variance.
           GPpredict g x_new X Y Kinv = Inr (mean, variance)
         \<and> GPpredict g x_new X' Y' Kinv' = Inr (mean, variance)"
proof -
  from mset_eq_reorder [OF perm] obtain p where
    p: "mset p = mset [0..<length (zip X Y)]" and z: "zip X' Y' = map ((!) (zip X Y)) p"
    by (elim exE conjE)
  have p': "mset p = mset [0..<length X]" using p len by simp
  have in_range: "i < length X" if "i \<in> set p" for i
    using mset_eq_setD [OF p'] that by auto
  have "map fst (zip X' Y') = map ((!) X) p"
    unfolding z map_map using in_range len by (intro map_cong refl) simp
  then have X': "X' = map ((!) X) p" using len' by simp
  have "map snd (zip X' Y') = map ((!) Y) p"
    unfolding z map_map using in_range len by (intro map_cong refl) simp
  then have Y': "Y' = map ((!) Y) p" using len' by simp
  have same: "GPpredict g x_new X' Y' Kinv' = GPpredict g x_new X Y Kinv"
    using GPpredict_reorder [OF p' len inv, of Kinv' x_new] inv' unfolding X' Y' by simp
  have "g_l g \<noteq> 0" using exact_inverse_of_gramD(1) [OF inv] by simp
  from GPpredict_value [OF this, of Y X Kinv x_new] exact_inverse_shape [OF inv] len
  obtain r where "GPpredict g x_new X Y Kinv = Inr r" by auto
  with same show ?thesis by (cases r) simp
qed

theorem predict_permutation_invariant_witness:
  "mset (zip [2, 1 :: real] [4, 3 :: real]) = mset (zip [1, 2 :: real] [3, 4 :: real])
   \<and> length [3, 4 :: real] = length [1, 2 :: real] \<and> length [4, 3 :: real] = length [2, 1 :: real]
   \<and> exact_inverse_of_gram (kernel_params 1 1 0) [1, 2] (cofactor_inverse2 1 (exp (- (1 / 2))))
   \<and> exact_inverse_of_gram (kernel_params 1 1 0) [2, 1] (cofactor_inverse2 1 (exp (- (1 / 2))))
   \<and> (\<exists>mean variance.
          GPpredict (kernel_params 1 1 0) 5 [1, 2] [3, 4] (cofactor_inverse2 1 (exp (- (1 / 2))))
            = Inr (mean, variance)
        \<and> GPpredict (kernel_params 1 1 0) 5 [2, 1] [4, 3] (cofactor_inverse2 1 (exp (- (1 / 2))))
            = Inr (mean, variance))"
proof -
  have h1: "mset (zip [2, 1 :: real] [4, 3 :: real]) = mset (zip [1, 2 :: real] [3, 4 :: real])" by simp
  have h2: "length [3, 4 :: real] = length [1, 2 :: real]" by simp
  have h3: "length [4, 3 :: real] = length [2, 1 :: real]" by simp
  have h4: "exact_inverse_of_gram (kernel_params 1 1 0) [1, 2] (cofactor_inverse2 1 (exp (- (1 / 2))))"
    by (rule unit_gram2) simp_all
  have h5: "exact_inverse_of_gram (kernel_params 1 1 0) [2, 1] (cofactor_inverse2 1 (exp (- (1 / 2))))"
    by (rule unit_gram2) simp_all
  from predict_permutation_invariant [OF h1 h2 h3 h4 h5, of 5] h1 h2 h3 h4 h5
  show ?thesis by blast
qed

text \<open>
  Claim C7. With zero noise and \<open>Kinv\<close> the exact inverse of the Gram matrix,
  \<open>GPpredict\<close> at a query point equal to a training input returns that input's target
  as the mean and the variance 0 (exactly, in real arithmetic). In particular, for a
  training set of size 1 with zero noise, a positive length scale and \<open>\<sigma>_k \<noteq> 0\<close>, the
  matrix \<open>[[1/\<sigma>_k\<^sup>2]]\<close> is the exact inverse and the prediction at the training point is
  the single target with variance 0.
\<close>

theorem interpolation_noise_free:
  "(g_sigma_noise g = 0 \<and> exact_inverse_of_gram g X Kinv \<and> length Y = length X \<and> m < length X
      \<longrightarrow> GPpredict g (X ! m) X Y Kinv = Inr (Y ! m, 0))
   \<and> (g_sigma_noise g = 0 \<and> 0 < g_l g \<and> g_sigma_kernel g \<noteq> 0
      \<longrightarrow> exact_inverse_of_gram g [x] [[1 / (g_sigma_kernel g)\<^sup>2]]
          \<and> GPpredict g x [x] [y] [[1 / (g_sigma_kernel g)\<^sup>2]] = Inr (y, 0))"
proof (intro conjI impI)
  assume "g_sigma_noise g = 0 \<and> exact_inverse_of_gram g X Kinv \<and> length Y = length X \<and> m < length X"
  then show "GPpredict g (X ! m) X Y Kinv = Inr (Y ! m, 0)"
    using GPpredict_at_training_point [of g X Kinv m Y] by simp
next
  assume h: "g_sigma_noise g = 0 \<and> 0 < g_l g \<and> g_sigma_kernel g \<noteq> 0"
  then have "compute_K [x] (g_sigma_kernel g) (g_l g) (g_sigma_noise g) = Inr [[(g_sigma_kernel g)\<^sup>2]]"
    by (simp add: compute_K_value squared_exponential_def)
  then show inv: "exact_inverse_of_gram g [x] [[1 / (g_sigma_kernel g)\<^sup>2]]"
    using h by (simp add: exact_inverse_of_gram_def is_inverse_def has_shape_def matmul_def
        vec_mat_def ncols_def column_def dot_def identity_def)
  show "GPpredict g x [x] [y] [[1 / (g_sigma_kernel g)\<^sup>2]] = Inr (y, 0)"
    using GPpredict_at_training_point [OF inv, of 0 "[y]"] by simp
qed

theorem interpolation_noise_free_witness:
  "g_sigma_noise (kernel_params 2 1 0) = 0 \<and> 0 < g_l (kernel_params 2 1 0)
   \<and> g_sigma_kernel (kernel_params 2 1 0) \<noteq> 0
   \<and> exact_inverse_of_gram (kernel_params 2 1 0) [5] [[1 / 4]]
   \<and> length [7::real] = length [5::real] \<and> (0::nat) < length [5::real]
   \<and> GPpredict (kernel_params 2 1 0) 5 [5] [7] [[1 / 4]] = Inr (7, 0)"
proof -
  have p: "g_sigma_noise (kernel_params 2 1 0) = 0 \<and> 0 < g_l (kernel_params 2 1 0)
             \<and> g_sigma_kernel (kernel_params 2 1 0) \<noteq> 0"
    by (simp add: kernel_params_def)
  have s: "(g_sigma_kernel (kernel_params 2 1 0))\<^sup>2 = 4" by (simp add: kernel_params_def)
  from interpolation_noise_free [of "kernel_params 2 1 0" "[5]" "[[1 / 4]]" "[7]" 0 5 7] p
  have inv: "exact_inverse_of_gram (kernel_params 2 1 0) [5] [[1 / 4]]"
    by (simp only: s) simp
  with interpolation_noise_free [of "kernel_params 2 1 0" "[5]" "[[1 / 4]]" "[7]" 0 5 7] p
  have "GPpredict (kernel_params 2 1 0) ([5] ! 0) [5] [7] [[1 / 4]] = Inr ([7] ! 0, 0)"
    by simp
  with p inv show ?thesis by simp
qed

text \<open>
  Claim C8. For a length scale other than 0 and an \<open>N\<times>N\<close> matrix \<open>Kinv\<close>,
  \<open>GPpredict\<close> returns a result at every query point \<open>x\<close>; as \<open>|x|\<close> grows without
  bound (so that \<open>x\<close> is ever farther from every training input), the mean tends to 0
  and the variance tends to the prior variance \<open>k(x, x) = \<sigma>_k\<^sup>2 + \<sigma>_n\<close>.
\<close>

theorem far_query_limit:
  assumes l: "g_l g \<noteq> 0" and len: "length X = length Y"
    and shape: "has_shape (length Y) (length Y) Kinv"
  shows "(\<forall>x. \<exists>mean variance. GPpredict g x X Y Kinv = Inr (mean, variance))
       \<and> (\<forall>x. kernel x x (g_sigma_kernel g) (g_l g) (g_sigma_noise g)
                = Inr ((g_sigma_kernel g)\<^sup>2 + g_sigma_noise g))
       \<and> ((\<lambda>x. fst (projr (GPpredict g x X Y Kinv))) \<longlongrightarrow> 0) at_infinity
       \<and> ((\<lambda>x. snd (projr (GPpredict g x X Y Kinv)))
             \<longlongrightarrow> (g_sigma_kernel g)\<^sup>2 + g_sigma_noise g) at_infinity"
proof -
  define k where "k = squared_exponential (g_sigma_kernel g) (g_l g) (g_sigma_noise g)"
  define N where "N = length Y"
  define mean where "mean = (\<lambda>x. \<Sum>j<N. (\<Sum>i<N. k (X ! i) x * Kinv ! i ! j) * Y ! j)"
  define quad where "quad = (\<lambda>x. \<Sum>j<N. (\<Sum>i<N. k (X ! i) x * Kinv ! i ! j) * k (X ! j) x)"
  have kxx: "k x x = (g_sigma_kernel g)\<^sup>2 + g_sigma_noise g" for x
    by (simp add: k_def squared_exponential_def)
  have val: "GPpredict g x X Y Kinv = Inr (mean x, (g_sigma_kernel g)\<^sup>2 + g_sigma_noise g - quad x)" for x
    using GPpredict_value [OF l _ shape, of X x] len kxx [of x]
    by (simp add: mean_def quad_def k_def N_def)
  have far: "((\<lambda>x. k c x) \<longlongrightarrow> 0) at_infinity" for c
    unfolding k_def using l by (rule kernel_far)
  have "(mean \<longlongrightarrow> (\<Sum>j<N. (\<Sum>i<N. 0 * Kinv ! i ! j) * Y ! j)) at_infinity"
    unfolding mean_def by (intro tendsto_sum tendsto_mult tendsto_const far)
  then have m: "(mean \<longlongrightarrow> 0) at_infinity" by simp
  have "(quad \<longlongrightarrow> (\<Sum>j<N. (\<Sum>i<N. 0 * Kinv ! i ! j) * 0)) at_infinity"
    unfolding quad_def by (intro tendsto_sum tendsto_mult tendsto_const far)
  then have "(quad \<longlongrightarrow> 0) at_infinity" by simp
  then have "((\<lambda>x. (g_sigma_kernel g)\<^sup>2 + g_sigma_noise g - quad x)
                \<longlongrightarrow> (g_sigma_kernel g)\<^sup>2 + g_sigma_noise g - 0) at_infinity"
    by (intro tendsto_diff tendsto_const)
  then have v: "((\<lambda>x. (g_sigma_kernel g)\<^sup>2 + g_sigma_noise g - quad x)
                \<longlongrightarrow> (g_sigma_kernel g)\<^sup>2 + g_sigma_noise g) at_infinity"
    by simp
  have 1: "\<forall>x. \<exists>mean variance. GPpredict g x X Y Kinv = Inr (mean, variance)"
    using val by blast
  have 2: "\<forall>x. kernel x x (g_sigma_kernel g) (g_l g) (g_sigma_noise g)
                = Inr ((g_sigma_kernel g)\<^sup>2 + g_sigma_noise g)"
    using l kxx by (simp add: kernel_value k_def)
  have 3: "((\<lambda>x. fst (projr (GPpredict g x X Y Kinv))) \<longlongrightarrow> 0) at_infinity"
    using m by (simp add: val)
  have 4: "((\<lambda>x. snd (projr (GPpredict g x X Y Kinv)))
             \<longlongrightarrow> (g_sigma_kernel g)\<^sup>2 + g_sigma_noise g) at_infinity"
    using v by (simp add: val)
  from 1 2 3 4 show ?thesis by (intro conjI)
qed

theorem far_query_limit_witness:
  "g_l (kernel_params 3 1 (3/10)) \<noteq> 0 \<and> length [0::real] = length [2::real]
   \<and> has_shape (length [2::real]) (length [2::real]) [[10/93]]
   \<and> ((\<lambda>x. fst (projr (GPpredict (kernel_params 3 1 (3/10)) x [0] [2] [[10/93]]))) \<longlongrightarrow> 0) at_infinity
   \<and> ((\<lambda>x. snd (projr (GPpredict (kernel_params 3 1 (3/10)) x [0] [2] [[10/93]])))
         \<longlongrightarrow> 3\<^sup>2 + 3/10) at_infinity"
proof -
  have h1: "g_l (kernel_params 3 1 (3/10)) \<noteq> 0" by (simp add: kernel_params_def)
  have h2: "length [0::real] = length [2::real]" by simp
  have h3: "has_shape (length [2::real]) (length [2::real]) [[10/93]]" by (simp add: has_shape_def)
  have p: "(g_sigma_kernel (kernel_params 3 1 (3/10)))\<^sup>2 + g_sigma_noise (kernel_params 3 1 (3/10))
             = 3\<^sup>2 + 3/10"
    by (simp add: kernel_params_def)
  from far_query_limit [OF h1 h2 h3] h1 h2 h3 show ?thesis
    unfolding p by (intro conjI) simp_all
qed

text \<open>
  Claim C9. \<open>GPpredict\<close> is a deterministic function of its arguments and the kernel
  parameters, without side effects. Take two states of the interpreter that agree on the
  module-level \<open>sigma_kernel\<close>, \<open>l\<close> and \<open>sigma_noise\<close>, and in each a call with the same
  query point and with arrays of the same contents for the training inputs, the targets and
  \<open>Kinv\<close> (at any addresses, whatever else the states hold). Both calls raise the same
  exception or return arrays of the same contents, which are the mean and the variance
  computed from these arguments alone; and after the call every module-level variable, every
  local variable of the caller and every array that existed before the call is as it was.
\<close>

theorem predict_pure:
  assumes "py_globals s ''sigma_kernel'' = Some (PyFloat sk)" and "py_globals s ''l'' = Some (PyFloat len)"
    and "py_globals s ''sigma_noise'' = Some (PyFloat sn)"
    and "py_globals s' ''sigma_kernel'' = Some (PyFloat sk)" and "py_globals s' ''l'' = Some (PyFloat len)"
    and "py_globals s' ''sigma_noise'' = Some (PyFloat sn)"
    and "py_heap s ax = Some (Vec xs)" and "py_heap s ay = Some (Vec ys)" and "py_heap s ak = Some (Mat K)"
    and "py_heap s' ax' = Some (Vec xs)" and "py_heap s' ay' = Some (Vec ys)"
    and "py_heap s' ak' = Some (Mat K)"
    and "\<forall>a\<in>dom (py_heap s). a < py_next s" and "\<forall>a\<in>dom (py_heap s'). a < py_next s'"
  shows "observed (GPpredict_call (PyFloat x) (PyRef ax) (PyRef ay) (PyRef ak) s)
           = observed (GPpredict_call (PyFloat x) (PyRef ax') (PyRef ay') (PyRef ak') s')
       \<and> observed (GPpredict_call (PyFloat x) (PyRef ax) (PyRef ay) (PyRef ak) s)
           = (case GPpredict (kernel_params sk len sn) x xs ys K of
                Inl e \<Rightarrow> Inl (Raised e)
              | Inr (m, v) \<Rightarrow> Inr (Some (Vec [m]), Some (Mat [[v]])))
       \<and> py_globals (snd (GPpredict_call (PyFloat x) (PyRef ax) (PyRef ay) (PyRef ak) s)) = py_globals s
       \<and> py_locals (snd (GPpredict_call (PyFloat x) (PyRef ax) (PyRef ay) (PyRef ak) s)) = py_locals s
       \<and> (\<forall>a\<in>dom (py_heap s).
             py_heap (snd (GPpredict_call (PyFloat x) (PyRef ax) (PyRef ay) (PyRef ak) s)) a
               = py_heap s a)"
  using call_run [OF assms(1-3) assms(7-9) assms(13) refl, of x]
    call_run(1) [OF assms(4-6) assms(10-12) assms(14) refl, of x]
  by simp

theorem predict_pure_witness:
  "py_globals notebook_state ''sigma_kernel'' = Some (PyFloat 1)
   \<and> py_globals other_state ''sigma_kernel'' = Some (PyFloat 1)
   \<and> py_heap notebook_state 0 = Some (Vec [0]) \<and> py_heap other_state 3 = Some (Vec [0])
   \<and> dom (py_heap notebook_state) = {0, 1, 2, 3, 4} \<and> py_next notebook_state = 5
   \<and> dom (py_heap other_state) = {0, 1, 2, 3} \<and> py_next other_state = 7
   \<and> observed (GPpredict_call (PyFloat 0) (PyRef 0) (PyRef 1) (PyRef 2) notebook_state)
       = Inr (Some (Vec [2]), Some (Mat [[0]]))
   \<and> observed (GPpredict_call (PyFloat 0) (PyRef 3) (PyRef 0) (PyRef 1) other_state)
       = Inr (Some (Vec [2]), Some (Mat [[0]]))
   \<and> py_globals (snd (GPpredict_call (PyFloat 0) (PyRef 0) (PyRef 1) (PyRef 2) notebook_state))
       = py_globals notebook_state
   \<and> py_heap (snd (GPpredict_call (PyFloat 0) (PyRef 0) (PyRef 1) (PyRef 2) notebook_state)) 0
       = Some (Vec [0])"
proof -
  have g: "py_globals notebook_state ''sigma_kernel'' = Some (PyFloat 1)"
    "py_globals notebook_state ''l'' = Some (PyFloat 1)"
    "py_globals notebook_state ''sigma_noise'' = Some (PyFloat 0)"
    by (simp_all add: notebook_state_def)
  have g': "py_globals other_state ''sigma_kernel'' = Some (PyFloat 1)"
    "py_globals other_state ''l'' = Some (PyFloat 1)"
    "py_globals other_state ''sigma_noise'' = Some (PyFloat 0)"
    by (simp_all add: other_state_def)
  have h: "py_heap notebook_state 0 = Some (Vec [0])" "py_heap notebook_state 1 = Some (Vec [2])"
    "py_heap notebook_state 2 = Some (Mat [[1]])"
    by (simp_all add: notebook_state_def)
  have h': "py_heap other_state 3 = Some (Vec [0])" "py_heap other_state 0 = Some (Vec [2])"
    "py_heap other_state 1 = Some (Mat [[1]])"
    by (simp_all add: other_state_def)
  have w: "\<forall>a\<in>dom (py_heap notebook_state). a < py_next notebook_state"
    by (simp add: notebook_state_def)
  have w': "\<forall>a\<in>dom (py_heap other_state). a < py_next other_state"
    by (simp add: other_state_def)
  have v: "GPpredict (kernel_params 1 1 0) 0 [0] [2] [[1]] = Inr (2, 0)"
    by (simp add: GPpredict_def Kstar_loop_def kernel_def kernel_params_def has_shape_def
        vec_mat_def ncols_def column_def dot_def)
  have d: "0 \<in> dom (py_heap notebook_state)" using h(1) by blast
  note p = predict_pure [OF g g' h h' w w', of 0]
  from p have p1: "observed (GPpredict_call (PyFloat 0) (PyRef 0) (PyRef 1) (PyRef 2) notebook_state)
                     = observed (GPpredict_call (PyFloat 0) (PyRef 3) (PyRef 0) (PyRef 1) other_state)"
    and p2: "observed (GPpredict_call (PyFloat 0) (PyRef 0) (PyRef 1) (PyRef 2) notebook_state)
               = (case GPpredict (kernel_params 1 1 0) 0 [0] [2] [[1]] of
                    Inl e \<Rightarrow> Inl (Raised e)
                  | Inr (m, v) \<Rightarrow> Inr (Some (Vec [m]), Some (Mat [[v]])))"
    and c: "py_globals (snd (GPpredict_call (PyFloat 0) (PyRef 0) (PyRef 1) (PyRef 2) notebook_state))
              = py_globals notebook_state"
    and p5: "\<forall>a\<in>dom (py_heap notebook_state).
               py_heap (snd (GPpredict_call (PyFloat 0) (PyRef 0) (PyRef 1) (PyRef 2) notebook_state)) a
                 = py_heap notebook_state a"
    by blast+
  have a: "observed (GPpredict_call (PyFloat 0) (PyRef 0) (PyRef 1) (PyRef 2) notebook_state)
             = Inr (Some (Vec [2]), Some (Mat [[0]]))"
    unfolding p2 v by simp
  have b: "observed (GPpredict_call (PyFloat 0) (PyRef 3) (PyRef 0) (PyRef 1) other_state)
             = Inr (Some (Vec [2]), Some (Mat [[0]]))"
    by (rule trans [OF p1 [symmetric] a])
  have e: "py_heap (snd (GPpredict_call (PyFloat 0) (PyRef 0) (PyRef 1) (PyRef 2) notebook_state)) 0
             = Some (Vec [0])"
    using p5 d h(1) by (simp only:)
  have q: "dom (py_heap notebook_state) = {0, 1, 2, 3, 4}" "py_next notebook_state = 5"
    "dom (py_heap other_state) = {0, 1, 2, 3}" "py_next other_state = 7"
    by (auto simp add: notebook_state_def other_state_def)
  from a b c e g(1) g'(1) h(1) h'(1) q show ?thesis by (intro conjI)
qed

text \<open>
  Claim C10. For a length scale other than 0, the kernel at identical arguments is
  \<open>k(x, x) = \<sigma>_k\<^sup>2 + \<sigma>_n\<close>; and the variance \<open>GPpredict\<close> returns at any query point
  is \<open>(\<sigma>_k\<^sup>2 + \<sigma>_n) - K* \<sqdot> Kinv \<sqdot> K*\<^sup>T\<close>: its prior term includes the noise \<open>\<sigma>_n\<close>.
\<close>

theorem prior_variance_includes_noise:
  assumes "g_l g \<noteq> 0"
  shows "kernel x x (g_sigma_kernel g) (g_l g) (g_sigma_noise g)
           = Inr ((g_sigma_kernel g)\<^sup>2 + g_sigma_noise g)
         \<and> (length x_data = length y_data \<and> has_shape (length y_data) (length y_data) Kinv \<longrightarrow>
             (\<exists>Kstar mean.
                length Kstar = length y_data
              \<and> (\<forall>i<length y_data.
                    kernel (x_data ! i) x_new (g_sigma_kernel g) (g_l g) (g_sigma_noise g) = Inr (Kstar ! i))
              \<and> GPpredict g x_new x_data y_data Kinv =
                  Inr (mean, ((g_sigma_kernel g)\<^sup>2 + g_sigma_noise g)
                               - (\<Sum>j<length y_data. (\<Sum>i<length y_data. Kstar ! i * Kinv ! i ! j) * Kstar ! j))))"
proof (intro conjI impI)
  show "kernel x x (g_sigma_kernel g) (g_l g) (g_sigma_noise g)
          = Inr ((g_sigma_kernel g)\<^sup>2 + g_sigma_noise g)"
    using assms by (simp add: kernel_def power2_eq_square)
next
  assume h: "length x_data = length y_data \<and> has_shape (length y_data) (length y_data) Kinv"
  define k where "k = squared_exponential (g_sigma_kernel g) (g_l g) (g_sigma_noise g)"
  define Kstar where "Kstar = map (\<lambda>i. k (x_data ! i) x_new) [0..<length y_data]"
  have kxx: "k x_new x_new = (g_sigma_kernel g)\<^sup>2 + g_sigma_noise g"
    by (simp add: k_def squared_exponential_def)
  have 1: "length Kstar = length y_data" by (simp add: Kstar_def)
  have 2: "\<forall>i<length y_data.
             kernel (x_data ! i) x_new (g_sigma_kernel g) (g_l g) (g_sigma_noise g) = Inr (Kstar ! i)"
    using assms by (simp add: Kstar_def k_def kernel_value)
  have 3: "GPpredict g x_new x_data y_data Kinv =
             Inr ((\<Sum>j<length y_data. (\<Sum>i<length y_data. Kstar ! i * Kinv ! i ! j) * y_data ! j),
                  ((g_sigma_kernel g)\<^sup>2 + g_sigma_noise g)
                    - (\<Sum>j<length y_data. (\<Sum>i<length y_data. Kstar ! i * Kinv ! i ! j) * Kstar ! j))"
    using GPpredict_value [OF assms, of y_data x_data Kinv x_new] h kxx
    by (simp add: Kstar_def k_def)
  from 1 2 3 show "\<exists>Kstar mean.
                length Kstar = length y_data
              \<and> (\<forall>i<length y_data.
                    kernel (x_data ! i) x_new (g_sigma_kernel g) (g_l g) (g_sigma_noise g) = Inr (Kstar ! i))
              \<and> GPpredict g x_new x_data y_data Kinv =
                  Inr (mean, ((g_sigma_kernel g)\<^sup>2 + g_sigma_noise g)
                               - (\<Sum>j<length y_data. (\<Sum>i<length y_data. Kstar ! i * Kinv ! i ! j) * Kstar ! j))"
    by blast
qed

theorem prior_variance_includes_noise_witness:
  "g_l (kernel_params 3 1 (3/10)) \<noteq> 0
   \<and> kernel 7 7 3 1 (3/10) = Inr (3\<^sup>2 + 3/10)
   \<and> length [0::real] = length [2::real]
   \<and> has_shape (length [2::real]) (length [2::real]) [[10/93]]
   \<and> (\<exists>mean. GPpredict (kernel_params 3 1 (3/10)) 0 [0] [2] [[10/93]]
                  = Inr (mean, (3\<^sup>2 + 3/10) - (93/10 * (10/93)) * (93/10)))"
proof -
  have h: "g_l (kernel_params 3 1 (3/10)) \<noteq> 0" by (simp add: kernel_params_def)
  have s: "length [0::real] = length [2::real]
             \<and> has_shape (length [2::real]) (length [2::real]) [[10/93]]"
    by (simp add: has_shape_def)
  from prior_variance_includes_noise [OF h, of 7 "[0]" "[2]" "[[10/93]]" 0] s
  have k: "kernel 7 7 3 1 (3/10) = Inr (3\<^sup>2 + 3/10)"
    and "\<exists>Kstar mean.
            kernel 0 0 3 1 (3/10) = Inr (Kstar ! 0)
          \<and> GPpredict (kernel_params 3 1 (3/10)) 0 [0] [2] [[10/93]]
              = Inr (mean, (3\<^sup>2 + 3/10) - (Kstar ! 0 * (10/93)) * Kstar ! 0)"
    by (auto simp add: kernel_params_def)
  then obtain Kstar mean where
    k0: "kernel 0 0 3 1 (3/10) = Inr (Kstar ! 0)"
    and m: "GPpredict (kernel_params 3 1 (3/10)) 0 [0] [2] [[10/93]]
              = Inr (mean, (3\<^sup>2 + 3/10) - (Kstar ! 0 * (10/93)) * Kstar ! 0)"
    by blast
  from k0 have "Kstar ! 0 = 93/10" by (simp add: kernel_def)
  with m have "\<exists>mean. GPpredict (kernel_params 3 1 (3/10)) 0 [0] [2] [[10/93]]
                  = Inr (mean, (3\<^sup>2 + 3/10) - (93/10 * (10/93)) * (93/10))"
    by simp
  with h k s show ?thesis by blast
qed

end
